theory Spec2Isabelle
  imports Complex_Main "HOL-Library.AList" "HOL-Library.Log_Nat"
begin

section \<open>Package tokenizer: encodings, models and resolution tables\<close>

text \<open>
  Go strings are byte sequences: \<^typ>\<open>string\<close>. A Go map is modelled as an association
  list whose keys are pairwise distinct: a map literal is the list of its entries as
  written, \<open>m[k] = v\<close> is \<^const>\<open>AList.update\<close> (it replaces the value of a key that
  is present, and adds the entry otherwise), \<open>len(m)\<close> is the length of the list.
  \<open>for k, v := range m\<close> visits every entry once, in an order the language leaves
  unspecified and that may change from one loop to the next: a function that ranges over
  a map takes the sequence of visited entries as an argument, and \<open>range_order m rng\<close>
  says that \<open>rng\<close> is such a sequence for the map \<open>m\<close>.
\<close>

type_synonym Model = string
type_synonym Encoding = string

datatype error = ErrModelNotSupported | ErrEncodingNotSupported | ErrOther string

text \<open>\<open>strings.HasPrefix(s, prefix)\<close>:
  \<open>len(s) >= len(prefix) && s[:len(prefix)] == prefix\<close>.\<close>

definition HasPrefix :: "string \<Rightarrow> string \<Rightarrow> bool" where
  "HasPrefix s prefix \<longleftrightarrow> length prefix \<le> length s \<and> take (length prefix) s = prefix"

definition range_order :: "('k \<times> 'v) list \<Rightarrow> ('k \<times> 'v) list \<Rightarrow> bool" where
  "range_order m rng \<longleftrightarrow> distinct (map fst rng) \<and> set rng = set m"

text \<open>The visit that starts at the entry \<open>(k, v)\<close> and goes on with the other entries
  in the order of the list.\<close>

definition visitFirst :: "'k \<Rightarrow> 'v \<Rightarrow> ('k \<times> 'v) list \<Rightarrow> ('k \<times> 'v) list" where
  "visitFirst k v m = (k, v) # filter (\<lambda>e. fst e \<noteq> k) m"

subsection \<open>Model and encoding constants\<close>

definition O1 :: Model where "O1 = ''o1''"
definition O1Preview :: Model where "O1Preview = ''o1-preview''"
definition O1Mini :: Model where "O1Mini = ''o1-mini''"
definition O3 :: Model where "O3 = ''o3''"
definition O3Mini :: Model where "O3Mini = ''o3-mini''"
definition O4Mini :: Model where "O4Mini = ''o4-mini''"
definition GPT41 :: Model where "GPT41 = ''gpt-4.1''"
definition GPT4o :: Model where "GPT4o = ''gpt-4o''"
definition GPT4 :: Model where "GPT4 = ''gpt-4''"
definition GPT35Turbo :: Model where "GPT35Turbo = ''gpt-3.5-turbo''"
definition GPT35 :: Model where "GPT35 = ''gpt-3.5''"
definition TextEmbeddingAda002 :: Model where "TextEmbeddingAda002 = ''text-embedding-ada-002''"
definition TextDavinci003 :: Model where "TextDavinci003 = ''text-davinci-003''"
definition TextDavinci002 :: Model where "TextDavinci002 = ''text-davinci-002''"
definition CodeDavinci002 :: Model where "CodeDavinci002 = ''code-davinci-002''"
definition CodeDavinci001 :: Model where "CodeDavinci001 = ''code-davinci-001''"
definition CodeCushman002 :: Model where "CodeCushman002 = ''code-cushman-002''"
definition CodeCushman001 :: Model where "CodeCushman001 = ''code-cushman-001''"
definition DavinciCodex :: Model where "DavinciCodex = ''davinci-codex''"
definition CushmanCodex :: Model where "CushmanCodex = ''cushman-codex''"
definition TextDavinci001 :: Model where "TextDavinci001 = ''text-davinci-001''"
definition TextCurie001 :: Model where "TextCurie001 = ''text-curie-001''"
definition TextBabbage001 :: Model where "TextBabbage001 = ''text-babbage-001''"
definition TextAda001 :: Model where "TextAda001 = ''text-ada-001''"
definition Davinci :: Model where "Davinci = ''davinci''"
definition Curie :: Model where "Curie = ''curie''"
definition Babbage :: Model where "Babbage = ''babbage''"
definition Ada :: Model where "Ada = ''ada''"
definition TextSimilarityDavinci001 :: Model where "TextSimilarityDavinci001 = ''text-similarity-davinci-001''"
definition TextSimilarityCurie001 :: Model where "TextSimilarityCurie001 = ''text-similarity-curie-001''"
definition TextSimilarityBabbage001 :: Model where "TextSimilarityBabbage001 = ''text-similarity-babbage-001''"
definition TextSimilarityAda001 :: Model where "TextSimilarityAda001 = ''text-similarity-ada-001''"
definition TextSearchDavinciDoc001 :: Model where "TextSearchDavinciDoc001 = ''text-search-davinci-doc-001''"
definition TextSearchCurieDoc001 :: Model where "TextSearchCurieDoc001 = ''text-search-curie-doc-001''"
definition TextSearchAdaDoc001 :: Model where "TextSearchAdaDoc001 = ''text-search-ada-doc-001''"
definition TextSearchBabbageDoc001 :: Model where "TextSearchBabbageDoc001 = ''text-search-babbage-doc-001''"
definition CodeSearchBabbageCode001 :: Model where "CodeSearchBabbageCode001 = ''code-search-babbage-code-001''"
definition CodeSearchAdaCode001 :: Model where "CodeSearchAdaCode001 = ''code-search-ada-code-001''"
definition TextDavinciEdit001 :: Model where "TextDavinciEdit001 = ''text-davinci-edit-001''"
definition CodeDavinciEdit001 :: Model where "CodeDavinciEdit001 = ''code-davinci-edit-001''"

definition R50kBase :: Encoding where "R50kBase = ''r50k_base''"
definition P50kBase :: Encoding where "P50kBase = ''p50k_base''"
definition P50kEdit :: Encoding where "P50kEdit = ''p50k_edit''"
definition Cl100kBase :: Encoding where "Cl100kBase = ''cl100k_base''"
definition O200kBase :: Encoding where "O200kBase = ''o200k_base''"
definition OllamaLlamaBase :: Encoding where "OllamaLlamaBase = ''llama''"
definition AnthropicBase :: Encoding where "AnthropicBase = ''cl100k_base''"

subsection \<open>The family tables of model-name prefixes\<close>

definition deepSeekModels :: "(string \<times> Encoding) list" where
  "deepSeekModels =
    [(''deepseek-r1'', R50kBase),
     (''deepseek-v3'', R50kBase),
     (''deepseek-v2.5'', R50kBase),
     (''deepseek-v2'', R50kBase),
     (''deepseek-coder-v2'', R50kBase),
     (''deepseek-coder'', R50kBase),
     (''deepseek-llm'', R50kBase),
     (''deepcoder'', R50kBase),
     (''deepscaler'', R50kBase)]"

definition definitiveTokenizerFamilies :: "(string \<times> Encoding) list" where
  "definitiveTokenizerFamilies =
    [(''gpt-5'', O200kBase),
     (''o1-'', O200kBase),
     (''o3-'', O200kBase),
     (''o4-'', O200kBase),
     (''chatgpt-4o-'', O200kBase),
     (''gpt-4.1-'', O200kBase),
     (''gpt-4o-'', O200kBase),
     (''gpt-4-'', Cl100kBase),
     (''gpt-3.5-turbo-'', Cl100kBase),
     (''gpt-35-turbo-'', Cl100kBase),
     (''ft:gpt-4'', Cl100kBase),
     (''ft:gpt-3.5-turbo'', Cl100kBase),
     (''ft:davinci-002'', Cl100kBase),
     (''ft:babbage-002'', Cl100kBase)]"

definition llamaModels :: "(string \<times> Encoding) list" where
  "llamaModels =
    [(''llama3.1'', OllamaLlamaBase),
     (''llama3.2'', OllamaLlamaBase),
     (''llama3.3'', OllamaLlamaBase),
     (''llama3'', OllamaLlamaBase),
     (''llama4'', OllamaLlamaBase),
     (''llama2'', R50kBase),
     (''codellama'', R50kBase),
     (''llama2-uncensored'', R50kBase),
     (''llama2-chinese'', R50kBase)]"

definition qwenModels :: "(string \<times> Encoding) list" where
  "qwenModels =
    [(''qwen3'', R50kBase),
     (''qwen2.5vl'', R50kBase),
     (''qwen2.5'', R50kBase),
     (''qwen2.5-coder'', R50kBase),
     (''qwen'', R50kBase),
     (''qwen2'', R50kBase),
     (''qwen2-math'', R50kBase),
     (''qwq'', R50kBase),
     (''codeqwen'', R50kBase)]"

definition claudeModels :: "(string \<times> Encoding) list" where
  "claudeModels =
    [(''claude-2.0'', Cl100kBase),
     (''claude-2.1'', Cl100kBase),
     (''claude-3-opus-'', AnthropicBase),
     (''claude-3-sonnet-'', AnthropicBase),
     (''claude-3-5-sonnet-'', AnthropicBase),
     (''claude-3-haiku-'', AnthropicBase),
     (''claude-3-5-haiku-'', AnthropicBase),
     (''claude-3-7-sonnet-'', AnthropicBase),
     (''claude-opus-4'', AnthropicBase),
     (''claude-sonnet-4'', AnthropicBase)]"

definition mistralModels :: "(string \<times> Encoding) list" where
  "mistralModels =
    [(''mistral'', R50kBase),
     (''mistral-nemo'', R50kBase),
     (''mistral-small'', R50kBase),
     (''mistral-small3.1'', R50kBase),
     (''mistral-small3.2'', R50kBase),
     (''mistral-large'', R50kBase),
     (''mistral-openorca'', R50kBase),
     (''mistrallite'', R50kBase),
     (''mathstral'', R50kBase),
     (''codestral'', R50kBase),
     (''devstral'', R50kBase),
     (''mixtral'', R50kBase)]"

definition gemmaModels :: "(string \<times> Encoding) list" where
  "gemmaModels =
    [(''gemma3n'', R50kBase),
     (''gemma3'', R50kBase),
     (''gemma2'', R50kBase),
     (''gemma'', R50kBase),
     (''codegemma'', R50kBase)]"

definition phiModels :: "(string \<times> Encoding) list" where
  "phiModels =
    [(''phi3'', OllamaLlamaBase),
     (''phi4'', R50kBase),
     (''phi4-mini'', R50kBase),
     (''phi4-reasoning'', R50kBase),
     (''phi4-mini-reasoning'', R50kBase),
     (''phi3.5'', R50kBase),
     (''phi'', R50kBase)]"

definition visionModels :: "(string \<times> Encoding) list" where
  "visionModels =
    [(''llava'', R50kBase),
     (''llava-llama3'', OllamaLlamaBase),
     (''llava-phi3'', R50kBase),
     (''minicpm-v'', R50kBase),
     (''llama3.2-vision'', OllamaLlamaBase),
     (''bakllava'', R50kBase),
     (''moondream'', R50kBase),
     (''granite3.2-vision'', R50kBase)]"

definition graniteModels :: "(string \<times> Encoding) list" where
  "graniteModels =
    [(''granite-code'', R50kBase),
     (''granite3.3'', R50kBase),
     (''granite3.2'', R50kBase),
     (''granite3.1-dense'', R50kBase),
     (''granite3.1-moe'', R50kBase),
     (''granite3-dense'', R50kBase),
     (''granite3-moe'', R50kBase),
     (''granite3-guardian'', R50kBase),
     (''granite-embedding'', R50kBase)]"

definition smallModels :: "(string \<times> Encoding) list" where
  "smallModels =
    [(''smollm2'', R50kBase),
     (''smollm'', R50kBase),
     (''tinyllama'', R50kBase),
     (''phi'', R50kBase),
     (''tinydolphin'', R50kBase)]"

definition embeddingModels :: "(string \<times> Encoding) list" where
  "embeddingModels =
    [(''nomic-embed-text'', R50kBase),
     (''mxbai-embed-large'', R50kBase),
     (''bge-m3'', R50kBase),
     (''snowflake-arctic-embed'', R50kBase),
     (''snowflake-arctic-embed2'', R50kBase),
     (''all-minilm'', R50kBase),
     (''bge-large'', R50kBase),
     (''paraphrase-multilingual'', R50kBase)]"

definition derivedModels :: "(string \<times> Encoding) list" where
  "derivedModels =
    [(''dolphin3'', OllamaLlamaBase),
     (''dolphin-mixtral'', R50kBase),
     (''dolphin-mistral'', R50kBase),
     (''dolphin-llama3'', OllamaLlamaBase),
     (''dolphincoder'', R50kBase),
     (''dolphin-phi'', R50kBase),
     (''hermes3'', OllamaLlamaBase),
     (''nous-hermes2'', R50kBase),
     (''nous-hermes2-mixtral'', R50kBase),
     (''nous-hermes'', R50kBase),
     (''openhermes'', R50kBase),
     (''wizardlm2'', R50kBase),
     (''wizardlm'', R50kBase),
     (''wizardlm-uncensored'', R50kBase),
     (''wizardcoder'', R50kBase),
     (''wizard-math'', R50kBase),
     (''wizard-vicuna-uncensored'', R50kBase),
     (''wizard-vicuna'', R50kBase)]"

definition fallbackModels :: "(string \<times> Encoding) list" where
  "fallbackModels =
    [(''starcoder2'', R50kBase),
     (''starcoder'', R50kBase),
     (''orca-mini'', R50kBase),
     (''orca2'', R50kBase),
     (''yi'', R50kBase),
     (''yi-coder'', R50kBase),
     (''zephyr'', R50kBase),
     (''command-r'', R50kBase),
     (''command-r-plus'', R50kBase),
     (''command-r7b'', R50kBase),
     (''command-r7b-arabic'', R50kBase),
     (''command-a'', R50kBase),
     (''vicuna'', R50kBase),
     (''openchat'', R50kBase),
     (''olmo2'', R50kBase),
     (''dbrx'', R50kBase),
     (''falcon'', R50kBase),
     (''falcon2'', R50kBase),
     (''falcon3'', R50kBase),
     (''solar'', R50kBase),
     (''solar-pro'', R50kBase),
     (''stablelm2'', R50kBase),
     (''stablelm-zephyr'', R50kBase),
     (''stable-code'', R50kBase),
     (''stable-beluga'', R50kBase),
     (''sqlcoder'', R50kBase),
     (''reflection'', OllamaLlamaBase),
     (''starling-lm'', R50kBase),
     (''xwinlm'', R50kBase),
     (''phind-codellama'', R50kBase),
     (''internlm2'', R50kBase),
     (''yarn-llama2'', R50kBase),
     (''yarn-mistral'', R50kBase),
     (''nexusraven'', R50kBase),
     (''shieldgemma'', R50kBase),
     (''everythinglm'', R50kBase),
     (''codeup'', R50kBase),
     (''duckdb-nsql'', R50kBase),
     (''magicoder'', R50kBase),
     (''codebooga'', R50kBase),
     (''bespoke-minicheck'', R50kBase),
     (''tulu3'', OllamaLlamaBase),
     (''nuextract'', R50kBase),
     (''megadolphin'', R50kBase),
     (''notux'', R50kBase),
     (''open-orca-platypus2'', R50kBase),
     (''notus'', R50kBase),
     (''goliath'', R50kBase),
     (''alfred'', R50kBase),
     (''neural-chat'', R50kBase),
     (''samantha-mistral'', R50kBase),
     (''athene-v2'', R50kBase),
     (''nemotron-mini'', R50kBase),
     (''nemotron'', OllamaLlamaBase),
     (''opencoder'', R50kBase),
     (''exaone3.5'', R50kBase),
     (''exaone-deep'', R50kBase),
     (''aya'', R50kBase),
     (''aya-expanse'', R50kBase),
     (''smallthinker'', R50kBase),
     (''sailor2'', R50kBase),
     (''firefunction-v2'', OllamaLlamaBase),
     (''codegeex4'', R50kBase),
     (''glm4'', R50kBase),
     (''meditron'', R50kBase),
     (''medllama2'', R50kBase),
     (''reader-lm'', R50kBase),
     (''r1-1776'', R50kBase),
     (''marco-o1'', R50kBase),
     (''openthinker'', R50kBase),
     (''magistral'', R50kBase),
     (''cogito'', R50kBase)]"

subsection \<open>buildModelPrefixToEncoding\<close>

text \<open>One loop \<open>for k, v := range table { result[k] = v }\<close>. The keys of a map literal
  are distinct, so the map the loop builds does not depend on the order of the visit; the
  entries are taken as written. The tables are added in the order of the source.\<close>

definition addTable :: "(string \<times> Encoding) list \<Rightarrow> (string \<times> Encoding) list \<Rightarrow> (string \<times> Encoding) list" where
  "addTable table result = fold (\<lambda>(k, v) r. AList.update k v r) table result"

definition tablesInPriorityOrder :: "(string \<times> Encoding) list list" where
  "tablesInPriorityOrder =
    [definitiveTokenizerFamilies, claudeModels, deepSeekModels, llamaModels, qwenModels,
     mistralModels, gemmaModels, phiModels, visionModels, graniteModels, smallModels,
     embeddingModels, derivedModels, fallbackModels]"

definition buildModelPrefixToEncoding :: "(string \<times> Encoding) list" where
  "buildModelPrefixToEncoding = fold addTable tablesInPriorityOrder []"

definition modelPrefixToEncoding :: "(string \<times> Encoding) list" where
  "modelPrefixToEncoding = buildModelPrefixToEncoding"



subsection \<open>Get and ForModel\<close>

text \<open>The interface value that \<open>Get\<close> returns is the result of one constructor call of
  package \<open>codec\<close>. Every call allocates a struct of its own, so a codec is identified by
  the constructor that built it; \<open>codec_NewGPT2Base\<close> is the codec of the package's
  constructor \<open>NewGPT2Base\<close>.\<close>

datatype Codec =
  codec_NewO200kBase | codec_NewCl100kBase | codec_NewR50kBase | codec_NewP50kBase
  | codec_NewP50kEdit | codec_NewLLama3Base | codec_NewGPT2Base

definition Get :: "Encoding \<Rightarrow> error + Codec" where
  "Get encoding =
    (if encoding = O200kBase then Inr codec_NewO200kBase
     else if encoding = Cl100kBase then Inr codec_NewCl100kBase
     else if encoding = R50kBase then Inr codec_NewR50kBase
     else if encoding = P50kBase then Inr codec_NewP50kBase
     else if encoding = P50kEdit then Inr codec_NewP50kEdit
     else if encoding = OllamaLlamaBase then Inr codec_NewLLama3Base
     else Inl ErrEncodingNotSupported)"

text \<open>The five \<open>case\<close> lists of the switch in \<open>ForModel\<close>: the exact-match tier.\<close>

definition casesO200kBase :: "Model list" where
  "casesO200kBase = [O1, O1Preview, O1Mini, GPT41, GPT4o, O3, O3Mini, O4Mini]"

definition casesCl100kBase :: "Model list" where
  "casesCl100kBase = [GPT4, GPT35, GPT35Turbo, TextEmbeddingAda002]"

definition casesP50kBase :: "Model list" where
  "casesP50kBase =
    [TextDavinci003, TextDavinci002, CodeDavinci001,
     CodeDavinci002, CodeCushman002, CodeCushman001,
     DavinciCodex, CushmanCodex]"

definition casesR50kBase :: "Model list" where
  "casesR50kBase =
    [TextDavinci001, TextCurie001, TextBabbage001, TextAda001, Davinci,
     Curie, Babbage, Ada, TextSimilarityDavinci001, TextSimilarityCurie001,
     TextSimilarityBabbage001, TextSimilarityAda001, TextSearchDavinciDoc001,
     TextSearchCurieDoc001, TextSearchAdaDoc001, TextSearchBabbageDoc001,
     CodeSearchBabbageCode001, CodeSearchAdaCode001]"

definition casesP50kEdit :: "Model list" where
  "casesP50kEdit = [TextDavinciEdit001, CodeDavinciEdit001]"

text \<open>\<open>rng\<close> is the sequence of entries that \<open>range modelPrefixToEncoding\<close> yields in
  this call; the loop returns at the first visited key that is a prefix of the model name.\<close>

definition ForModel :: "(string \<times> Encoding) list \<Rightarrow> Model \<Rightarrow> error + Codec" where
  "ForModel rng model =
    (if model \<in> set casesO200kBase then Get O200kBase
     else if model \<in> set casesCl100kBase then Get Cl100kBase
     else if model \<in> set casesP50kBase then Get P50kBase
     else if model \<in> set casesR50kBase then Get R50kBase
     else if model \<in> set casesP50kEdit then Get P50kEdit
     else (case find (\<lambda>(prefix, enc). HasPrefix model prefix) rng of
             Some (prefix, enc) \<Rightarrow> Get enc
           | None \<Rightarrow> Inl ErrModelNotSupported))"

subsection \<open>The arithmetic of \<open>int(float64(count) * ratio)\<close>\<close>

text \<open>
  The type \<open>float64\<close> is the IEEE-754 double-precision format. A finite value is
  \<open>m * 2 ^ e\<close> for integers \<open>m\<close> and \<open>e\<close>, written \<open>Float m e\<close>: the finite doubles are the
  values of this form with \<open>\<bar>m\<bar> < 2 ^ 53\<close> and \<open>- 1074 \<le> e \<le> 971\<close>. \<open>NonFinite\<close> stands
  for the infinities and the NaNs. The sign of a zero is not kept: no operation used
  here depends on it. \<open>valueOf\<close> is the real number a finite value denotes.
\<close>

datatype float64 = Float int int | NonFinite

definition valueOf :: "float64 \<Rightarrow> real" where
  "valueOf f = (case f of Float m e \<Rightarrow> real_of_int m * 2 powr real_of_int e | NonFinite \<Rightarrow> 0)"

text \<open>A value of magnitude \<open>2 ^ 1024\<close> or more is beyond the largest finite double: the
  operation overflows to an infinity.\<close>

definition finiteOrOverflow :: "int \<Rightarrow> int \<Rightarrow> float64" where
  "finiteOrOverflow m e = (if m \<noteq> 0 \<and> 1024 < bitlen \<bar>m\<bar> + e then NonFinite else Float m e)"

text \<open>
  The double nearest to \<open>m * 2 ^ e\<close>, ties to the even mantissa: the rounding of every
  \<open>float64\<close> operation. \<open>drop\<close> is the number of low bits of \<open>m\<close> that do not fit: those
  beyond 53 significant bits, and those below the smallest exponent \<open>- 1074\<close>.
\<close>

definition roundToFloat64 :: "int \<Rightarrow> int \<Rightarrow> float64" where
  "roundToFloat64 m e =
    (let drop = max (bitlen \<bar>m\<bar> - 53) (- 1074 - e) in
     if drop \<le> 0 then finiteOrOverflow m e
     else
       let q = \<bar>m\<bar> div 2 ^ nat drop;
           r = \<bar>m\<bar> mod 2 ^ nat drop;
           half = 2 ^ nat (drop - 1);
           q' = (if half < r \<or> (r = half \<and> odd q) then q + 1 else q)
       in finiteOrOverflow (sgn m * q') (e + drop))"

text \<open>The conversion \<open>float64(count)\<close> of an integer: the integer, rounded.\<close>

definition float64OfInt :: "int \<Rightarrow> float64" where
  "float64OfInt n = roundToFloat64 n 0"

text \<open>The product \<open>x * y\<close> of two \<open>float64\<close> values: the exact product, rounded.\<close>

definition float64Mul :: "float64 \<Rightarrow> float64 \<Rightarrow> float64" where
  "float64Mul x y =
    (case x of
       NonFinite \<Rightarrow> NonFinite
     | Float m1 e1 \<Rightarrow>
        (case y of
           NonFinite \<Rightarrow> NonFinite
         | Float m2 e2 \<Rightarrow> roundToFloat64 (m1 * m2) (e1 + e2)))"

text \<open>
  The conversion \<open>int(f)\<close> of a \<open>float64\<close>: the fraction is discarded (truncation towards
  zero). When the value is not finite or does not fit \<open>int\<close>, which is taken to be 64
  bits wide, the language leaves the result to the implementation: \<open>implDependent f\<close>
  stands for it.
\<close>

definition truncateToInt :: "int \<Rightarrow> int \<Rightarrow> int" where
  "truncateToInt m e = (if 0 \<le> e then m * 2 ^ nat e else sgn m * (\<bar>m\<bar> div 2 ^ nat (- e)))"

definition intOfFloat64 :: "(float64 \<Rightarrow> int) \<Rightarrow> float64 \<Rightarrow> int" where
  "intOfFloat64 implDependent f =
    (case f of
       NonFinite \<Rightarrow> implDependent f
     | Float m e \<Rightarrow>
        (if - (2 ^ 63) \<le> truncateToInt m e \<and> truncateToInt m e < 2 ^ 63 then truncateToInt m e
         else implDependent f))"

subsection \<open>Count\<close>

text \<open>\<open>Count(model, input)\<close>. The method \<open>enc.Count\<close> of the codec and the table
  \<open>Ratios\<close> are declared in files that are not among the sources and are arguments: \<open>codecCount\<close> is
  the method, \<open>ratiosRng\<close> the entries of \<open>Ratios\<close> in the order the loop visits them. The
  values of \<open>Ratios\<close> are of type \<open>float64\<close>, as the product \<open>float64(count) * ratio\<close> requires.\<close>

definition Count ::
  "(Codec \<Rightarrow> string \<Rightarrow> error + int) \<Rightarrow> (float64 \<Rightarrow> int) \<Rightarrow> (string \<times> float64) list \<Rightarrow>
   (string \<times> Encoding) list \<Rightarrow> Model \<Rightarrow> string \<Rightarrow> error + int" where
  "Count codecCount implDependent ratiosRng rng model input =
    (case ForModel rng model of
       Inl err \<Rightarrow> Inl err
     | Inr enc \<Rightarrow>
        (case codecCount enc input of
           Inl err \<Rightarrow> Inl err
         | Inr count \<Rightarrow>
            (case find (\<lambda>(prefix, ratio). HasPrefix model prefix) ratiosRng of
               Some (prefix, ratio) \<Rightarrow>
                 Inr (intOfFloat64 implDependent (float64Mul (float64OfInt count) ratio))
             | None \<Rightarrow> Inr count)))"

section \<open>Package codec: the LLaMA3 and GPT-2 constructors\<close>

text \<open>
  The struct \<open>Codec\<close> with the fields the constructors set. The vocabulary tables are
  generated data (a map from byte sequences to ranks) and the compiled split pattern is a
  value of the regular-expression library: both are arguments of the constructors here.
  Identifiers are \<open>uint\<close> in the source and natural numbers here: they are sums of the
  length of a table held in memory and a number below 256, far from the 64-bit limit.
\<close>

record 're codec_Codec =
  name :: string
  vocabulary :: "(string \<times> nat) list"
  splitRegexp :: 're
  specialTokens :: "(string \<times> nat) list"

definition numReservedSpecialTokens :: nat where
  "numReservedSpecialTokens = 256"

text \<open>\<open>fmt.Sprintf("%d", n)\<close> for a number that is not negative.\<close>

fun Sprintf_d :: "nat \<Rightarrow> string" where
  "Sprintf_d n =
    (if n < 10 then [char_of (48 + n)]
     else Sprintf_d (n div 10) @ [char_of (48 + n mod 10)])"

declare Sprintf_d.simps [simp del]

definition reservedTokenName :: "nat \<Rightarrow> string" where
  "reservedTokenName k = ''<|reserved_special_token_'' @ Sprintf_d k @ ''|>''"

definition NewLLama3Base :: "(string \<times> nat) list \<Rightarrow> 're \<Rightarrow> 're codec_Codec" where
  "NewLLama3Base llamaVocab llamaRegexp =
    (let numBaseTokens = length llamaVocab;
         literal =
           [(''<|begin_of_text|>'', numBaseTokens),
            (''<|end_of_text|>'', numBaseTokens + 1),
            (''<|reserved_special_token_0|>'', numBaseTokens + 2),
            (''<|reserved_special_token_1|>'', numBaseTokens + 3),
            (''<|finetune_right_pad_id|>'', numBaseTokens + 4),
            (''<|step_id|>'', numBaseTokens + 5),
            (''<|start_header_id|>'', numBaseTokens + 6),
            (''<|end_header_id|>'', numBaseTokens + 7),
            (''<|eom_id|>'', numBaseTokens + 8),
            (''<|eot_id|>'', numBaseTokens + 9),
            (''<|python_tag|>'', numBaseTokens + 10),
            (''<|image|>'', numBaseTokens + 11)];
         definedSpecialTokens = 12
     in \<lparr>name = ''llama'',
         vocabulary = llamaVocab,
         splitRegexp = llamaRegexp,
         specialTokens =
           fold (\<lambda>i m. AList.update (reservedTokenName (2 + i))
                         (numBaseTokens + definedSpecialTokens + i) m)
             [0..<numReservedSpecialTokens - definedSpecialTokens] literal\<rparr>)"

definition NewGPT2Base :: "(string \<times> nat) list \<Rightarrow> 're \<Rightarrow> 're codec_Codec" where
  "NewGPT2Base gpt2BaseVocab gpt2Regexp =
    \<lparr>name = ''gpt2'',
     vocabulary = gpt2BaseVocab,
     splitRegexp = gpt2Regexp,
     specialTokens = [(''<|endoftext|>'', 50256)]\<rparr>"

section \<open>Package codec: the codec engine\<close>

text \<open>
  The file of package \<open>codec\<close> that implements \<open>Encode\<close>, \<open>Decode\<close> and \<open>Count\<close> is not
  among the sources. The definitions of this section follow the design document
  instead; each says so. A codec is a \<^typ>\<open>'re codec_Codec\<close> as the constructors build
  it: its vocabulary maps byte sequences to ranks, its special-token table maps literal
  strings to reserved ids. The regular-expression engine is a library outside the
  repository: \<open>findMatch re text\<close> is the length of the match of the pattern \<open>re\<close> at the
  start of the unconsumed input \<open>text\<close>, or \<open>None\<close> when the engine fails.
\<close>

text \<open>Modelled from the spec: the forward lookup of the vocabulary store (not in the
  sources), \<open>rankOf(byteSequence) -> rank | absent\<close>.\<close>

definition rankOf :: "(string \<times> nat) list \<Rightarrow> string \<Rightarrow> nat option" where
  "rankOf vocab bytes = map_of vocab bytes"

text \<open>Modelled from the spec: the inverse lookup of the vocabulary store (not in the
  sources), \<open>bytesOf(rank) -> byteSequence | absent\<close>.\<close>

definition bytesOf :: "(string \<times> nat) list \<Rightarrow> nat \<Rightarrow> string option" where
  "bytesOf vocab rank = map_of (map (\<lambda>(bytes, r). (r, bytes)) vocab) rank"

text \<open>Modelled from the spec: the pre-tokenizer \<open>split\<close> (not in the sources). Each
  match of the pattern against the unconsumed input is one chunk and consumes exactly the
  matched span. The spec has the pattern match at least one character whenever input
  remains; a match that is empty or longer than the input, and a failure of the engine,
  are reported as an error here.\<close>

fun split :: "(string \<Rightarrow> nat option) \<Rightarrow> string \<Rightarrow> error + string list" where
  "split findMatch [] = Inr []"
| "split findMatch (c # cs) =
    (case findMatch (c # cs) of
       None \<Rightarrow> Inl (ErrOther ''error matching'')
     | Some n \<Rightarrow>
        if n = 0 \<or> length (c # cs) < n then Inl (ErrOther ''error matching'')
        else (case split findMatch (drop (n - 1) cs) of
                Inl err \<Rightarrow> Inl err
              | Inr chunks \<Rightarrow> Inr (take n (c # cs) # chunks)))"

text \<open>Modelled from the spec: the segments of the special-token recognizer (not in the
  sources), a literal special token with its reserved id or a piece of plain text.\<close>

datatype segment = Special string nat | Plain string

text \<open>Modelled from the spec: the choice of the recognizer at one position (not in the
  sources), the longest literal of the table that starts there. A literal is a control
  string, so the empty string is never a match.\<close>

fun longestSpecial :: "(string \<times> nat) list \<Rightarrow> string \<Rightarrow> (string \<times> nat) option" where
  "longestSpecial [] text = None"
| "longestSpecial ((literal, tid) # table) text =
    (if literal \<noteq> [] \<and> HasPrefix text literal then
       (case longestSpecial table text of
          None \<Rightarrow> Some (literal, tid)
        | Some (literal', tid') \<Rightarrow>
            if length literal < length literal' then Some (literal', tid') else Some (literal, tid))
     else longestSpecial table text)"

text \<open>Modelled from the spec: the plain segment that ends where a special token or the
  end of the text is met (not in the sources); no segment is made of no text.\<close>

definition flushPlain :: "string \<Rightarrow> segment list" where
  "flushPlain plain = (if plain = [] then [] else [Plain plain])"

text \<open>Modelled from the spec: the special-token recognizer (not in the sources). Matching
  is leftmost, and longest first at each position; the text between and around the
  matches makes the plain segments, in the original order. \<open>plain\<close> is the plain text
  read since the last match.\<close>

fun recognize :: "(string \<times> nat) list \<Rightarrow> string \<Rightarrow> string \<Rightarrow> segment list" where
  "recognize table plain [] = flushPlain plain"
| "recognize table plain (c # cs) =
    (case longestSpecial table (c # cs) of
       Some (literal, tid) \<Rightarrow>
         flushPlain plain @ Special literal tid # recognize table [] (drop (length literal - 1) cs)
     | None \<Rightarrow> recognize table (plain @ [c]) cs)"

text \<open>Modelled from the spec: the scan of one round of the merge engine (not in the
  sources). It looks up the rank of each concatenated adjacent pair and selects the pair
  of lowest rank, the leftmost one among equal ranks. \<open>i\<close> is the index of the pair at the
  head of the list, \<open>best\<close> the index and rank of the best pair so far.\<close>

fun bestPair ::
  "(string \<times> nat) list \<Rightarrow> string list \<Rightarrow> nat \<Rightarrow> (nat \<times> nat) option \<Rightarrow> (nat \<times> nat) option" where
  "bestPair vocab (a # b # parts) i best =
     bestPair vocab (b # parts) (i + 1)
       (case rankOf vocab (a @ b) of
          None \<Rightarrow> best
        | Some r \<Rightarrow>
           (case best of
              None \<Rightarrow> Some (i, r)
            | Some (j, r') \<Rightarrow> if r < r' then Some (i, r) else Some (j, r')))"
| "bestPair vocab parts i best = best"

text \<open>Modelled from the spec: the replacement of the selected pair by its single merged
  part (not in the sources).\<close>

fun mergeAt :: "nat \<Rightarrow> string list \<Rightarrow> string list" where
  "mergeAt 0 (a # b # parts) = (a @ b) # parts"
| "mergeAt (Suc i) (a # parts) = a # mergeAt i parts"
| "mergeAt i parts = parts"

text \<open>The scan selects a pair inside the list, and a merge shortens the list: what the
  termination of the rounds rests on.\<close>

lemma bestPair_index:
  "bestPair vocab parts i best = Some (k, r) \<Longrightarrow>
     best = Some (k, r) \<or>
     (i \<le> k \<and> k - i + 1 < length parts \<and>
      rankOf vocab (parts ! (k - i) @ parts ! (k - i + 1)) = Some r)"
proof (induction vocab parts i best rule: bestPair.induct)
  case (1 vocab a b parts i best)
  let ?best = "case rankOf vocab (a @ b) of None \<Rightarrow> best
    | Some r \<Rightarrow> (case best of None \<Rightarrow> Some (i, r)
        | Some (j, r') \<Rightarrow> if r < r' then Some (i, r) else Some (j, r'))"
  from "1.prems" have "bestPair vocab (b # parts) (i + 1) ?best = Some (k, r)"
    by simp
  from "1.IH" [OF this]
  consider (old) "?best = Some (k, r)"
    | (new) "i + 1 \<le> k" "k - (i + 1) + 1 < length (b # parts)"
        "rankOf vocab ((b # parts) ! (k - (i + 1)) @ (b # parts) ! (k - (i + 1) + 1)) = Some r"
    by blast
  then show ?case
  proof cases
    case old
    then show ?thesis
      by (auto split: option.splits if_splits)
  next
    case new
    from new(1) have "k - i = Suc (k - (i + 1))" by simp
    with new show ?thesis by simp
  qed
qed simp_all

lemma length_mergeAt: "i + 1 < length parts \<Longrightarrow> length (mergeAt i parts) < length parts"
  by (induction i parts rule: mergeAt.induct) simp_all

text \<open>Modelled from the spec: the rounds of the merge engine (not in the sources). Repeat:
  scan, stop if no adjacent pair has a rank, else replace the selected pair by its merged
  part.\<close>

function mergeParts :: "(string \<times> nat) list \<Rightarrow> string list \<Rightarrow> string list" where
  "mergeParts vocab parts =
    (case bestPair vocab parts 0 None of
       None \<Rightarrow> parts
     | Some (i, r) \<Rightarrow> mergeParts vocab (mergeAt i parts))"
  by pat_completeness auto
termination
proof (relation "measure (\<lambda>(vocab, parts). length parts)", goal_cases)
  case 1
  show ?case by simp
next
  case (2 vocab parts best i r)
  then have "bestPair vocab parts 0 None = Some (i, r)"
    by simp
  then have "i + 1 < length parts"
    using bestPair_index [of vocab parts 0 None i r] by simp
  then show ?case
    by (simp add: length_mergeAt)
qed

declare mergeParts.simps [simp del]

text \<open>Modelled from the spec: the composition of the steps of \<open>Encode\<close> and \<open>Decode\<close> (not
  in the sources). A step runs over a list and the results are concatenated in order;
  the first failure is the result of the whole, no partial sequence is produced.\<close>

fun collect :: "('a \<Rightarrow> error + 'b list) \<Rightarrow> 'a list \<Rightarrow> error + 'b list" where
  "collect f [] = Inr []"
| "collect f (x # xs) =
    (case f x of
       Inl err \<Rightarrow> Inl err
     | Inr ys \<Rightarrow> (case collect f xs of Inl err \<Rightarrow> Inl err | Inr zs \<Rightarrow> Inr (ys @ zs)))"

text \<open>Modelled from the spec: the lookup of the rank of a final part (not in the sources),
  kept together with the part. The spec rules out a final part without a rank (every
  single byte has one); the model reports it as an error.\<close>

definition rankPart :: "(string \<times> nat) list \<Rightarrow> string \<Rightarrow> error + (nat \<times> string) list" where
  "rankPart vocab part =
    (case rankOf vocab part of
       None \<Rightarrow> Inl (ErrOther ''no rank'')
     | Some r \<Rightarrow> Inr [(r, part)])"

text \<open>Modelled from the spec: \<open>merge(chunkBytes, vocabulary)\<close> (not in the sources), the
  rank of each final part in left-to-right order. The chunk starts as a sequence of
  single-byte parts.\<close>

definition merge :: "string \<Rightarrow> (string \<times> nat) list \<Rightarrow> error + (nat \<times> string) list" where
  "merge chunkBytes vocab = collect (rankPart vocab) (mergeParts vocab (map (\<lambda>b. [b]) chunkBytes))"

text \<open>Modelled from the spec: what \<open>Encode\<close> does with one segment (not in the sources).
  A special token gives its reserved id; a plain segment is split and each chunk merged.
  A failure of the pattern engine is the failure of the encoding.\<close>

definition encodeSegment ::
  "('re \<Rightarrow> string \<Rightarrow> nat option) \<Rightarrow> 're codec_Codec \<Rightarrow> segment \<Rightarrow> error + (nat \<times> string) list" where
  "encodeSegment findMatch c seg =
    (case seg of
       Special literal tid \<Rightarrow> Inr [(tid, literal)]
     | Plain text \<Rightarrow>
        (case split (findMatch (splitRegexp c)) text of
           Inl err \<Rightarrow> Inl err
         | Inr chunks \<Rightarrow> collect (\<lambda>chunk. merge chunk (vocabulary c)) chunks))"

text \<open>Modelled from the spec: \<open>Encode\<close> (not in the sources). It recognizes the special
  tokens, encodes each segment and concatenates in the original order, the ids of the
  special tokens at their positions; \<open>tokens\<close> is the parallel sequence of the substrings
  the ids decode to.\<close>

definition codec_Encode ::
  "('re \<Rightarrow> string \<Rightarrow> nat option) \<Rightarrow> 're codec_Codec \<Rightarrow> string \<Rightarrow> error + (nat list \<times> string list)" where
  "codec_Encode findMatch c text =
    (case collect (encodeSegment findMatch c) (recognize (specialTokens c) [] text) of
       Inl err \<Rightarrow> Inl err
     | Inr toks \<Rightarrow> Inr (map fst toks, map snd toks))"

text \<open>Modelled from the spec: what \<open>Decode\<close> does with one id (not in the sources). An id
  below the rank ceiling (the size of the vocabulary, ranks being dense from 0) is looked
  up in the inverse vocabulary; an id that is a reserved special-token id is replaced by
  its literal; an id with no mapping in either table is a decoding error.\<close>

definition decodeId :: "'re codec_Codec \<Rightarrow> nat \<Rightarrow> error + string" where
  "decodeId c tid =
    (case (if tid < length (vocabulary c) then bytesOf (vocabulary c) tid else None) of
       Some bytes \<Rightarrow> Inr bytes
     | None \<Rightarrow>
        (case map_of (map (\<lambda>(literal, i). (i, literal)) (specialTokens c)) tid of
           Some literal \<Rightarrow> Inr literal
         | None \<Rightarrow> Inl (ErrOther ''invalid token'')))"

text \<open>Modelled from the spec: \<open>Decode\<close> (not in the sources). The byte sequences of the
  ids are concatenated in input order.\<close>

definition codec_Decode :: "'re codec_Codec \<Rightarrow> nat list \<Rightarrow> error + string" where
  "codec_Decode c ids = collect (decodeId c) ids"

text \<open>Modelled from the spec: the sum of the counts of a list of pieces (not in the
  sources); the first failure is the result of the whole.\<close>

fun sumCounts :: "('a \<Rightarrow> error + int) \<Rightarrow> 'a list \<Rightarrow> error + int" where
  "sumCounts f [] = Inr 0"
| "sumCounts f (x # xs) =
    (case f x of
       Inl err \<Rightarrow> Inl err
     | Inr n \<Rightarrow> (case sumCounts f xs of Inl err \<Rightarrow> Inl err | Inr m \<Rightarrow> Inr (n + m)))"

text \<open>Modelled from the spec: what \<open>Count\<close> does with one segment (not in the sources). A
  special token counts one, a chunk counts its final parts; no id is looked up.\<close>

definition countSegment ::
  "('re \<Rightarrow> string \<Rightarrow> nat option) \<Rightarrow> 're codec_Codec \<Rightarrow> segment \<Rightarrow> error + int" where
  "countSegment findMatch c seg =
    (case seg of
       Special literal tid \<Rightarrow> Inr 1
     | Plain text \<Rightarrow>
        (case split (findMatch (splitRegexp c)) text of
           Inl err \<Rightarrow> Inl err
         | Inr chunks \<Rightarrow>
            sumCounts
              (\<lambda>chunk. Inr (int (length (mergeParts (vocabulary c) (map (\<lambda>b. [b]) chunk)))))
              chunks))"

text \<open>Modelled from the spec: \<open>Count\<close> (not in the sources). It reports the number of ids
  that \<open>Encode\<close> would report, without building the id sequence.\<close>

definition codec_Count ::
  "('re \<Rightarrow> string \<Rightarrow> nat option) \<Rightarrow> 're codec_Codec \<Rightarrow> string \<Rightarrow> error + int" where
  "codec_Count findMatch c text =
    sumCounts (countSegment findMatch c) (recognize (specialTokens c) [] text)"

text \<open>Modelled from the spec: the invariants of the tables of an encoding configuration
  (the tables are generated data, not in the sources). The vocabulary is a map with unique
  ranks, dense from 0, that holds every single byte; the special-token table is a map with
  unique ids, none of them below the size of the vocabulary.\<close>

definition wellFormed :: "'re codec_Codec \<Rightarrow> bool" where
  "wellFormed c \<longleftrightarrow>
     distinct (map fst (vocabulary c)) \<and>
     distinct (map snd (vocabulary c)) \<and>
     (\<forall>r \<in> snd ` set (vocabulary c). r < length (vocabulary c)) \<and>
     (\<forall>b. [b] \<in> fst ` set (vocabulary c)) \<and>
     distinct (map fst (specialTokens c)) \<and>
     distinct (map snd (specialTokens c)) \<and>
     (\<forall>i \<in> snd ` set (specialTokens c). length (vocabulary c) \<le> i)"

text \<open>Modelled from the spec: the property of a family's pattern (the engine is a library
  outside the repository), that it matches at least one character of any input that is
  not empty.\<close>

definition alwaysMatches :: "(string \<Rightarrow> nat option) \<Rightarrow> bool" where
  "alwaysMatches findMatch \<longleftrightarrow>
     (\<forall>text. text \<noteq> [] \<longrightarrow> (\<exists>n. findMatch text = Some n \<and> 1 \<le> n \<and> n \<le> length text))"

text \<open>The piece of the text that a segment stands for.\<close>

definition segmentText :: "segment \<Rightarrow> string" where
  "segmentText seg = (case seg of Special literal tid \<Rightarrow> literal | Plain text \<Rightarrow> text)"

text \<open>Data for examples: a vocabulary with the 256 single bytes (their codes as ranks)
  and two merged entries; a pattern engine that takes a run of lower-case letters or one
  other character; and a codec with a six-entry vocabulary and one special token.\<close>

definition exampleVocab :: "(string \<times> nat) list" where
  "exampleVocab = map (\<lambda>n. ([char_of n], n)) [0..<256] @ [(''ab'', 256), (''abc'', 257)]"

definition exampleMatch :: "unit \<Rightarrow> string \<Rightarrow> nat option" where
  "exampleMatch re text =
    Some (max 1 (length (takeWhile (\<lambda>c. 97 \<le> (of_char c :: nat) \<and> (of_char c :: nat) \<le> 122) text)))"

definition tinyCodec :: "unit codec_Codec" where
  "tinyCodec =
    \<lparr>name = ''tiny'',
     vocabulary = [(''a'', 0), (''b'', 1), (''c'', 2), ('' '', 3), (''ab'', 4), (''abc'', 5)],
     splitRegexp = (),
     specialTokens = [(''<|e|>'', 6)]\<rparr>"

section \<open>Properties of model resolution\<close>

lemmas encoding_defs =
  R50kBase_def P50kBase_def P50kEdit_def Cl100kBase_def O200kBase_def OllamaLlamaBase_def
  AnthropicBase_def

lemmas model_defs =
  O1_def O1Preview_def O1Mini_def O3_def O3Mini_def O4Mini_def GPT41_def GPT4o_def GPT4_def
  GPT35Turbo_def GPT35_def TextEmbeddingAda002_def TextDavinci003_def TextDavinci002_def
  CodeDavinci002_def CodeDavinci001_def CodeCushman002_def CodeCushman001_def
  DavinciCodex_def CushmanCodex_def TextDavinci001_def TextCurie001_def TextBabbage001_def
  TextAda001_def Davinci_def Curie_def Babbage_def Ada_def TextSimilarityDavinci001_def
  TextSimilarityCurie001_def TextSimilarityBabbage001_def TextSimilarityAda001_def
  TextSearchDavinciDoc001_def TextSearchCurieDoc001_def TextSearchAdaDoc001_def
  TextSearchBabbageDoc001_def CodeSearchBabbageCode001_def CodeSearchAdaCode001_def
  TextDavinciEdit001_def CodeDavinciEdit001_def

lemmas cases_defs =
  casesO200kBase_def casesCl100kBase_def casesP50kBase_def casesR50kBase_def casesP50kEdit_def

lemmas table_defs =
  deepSeekModels_def definitiveTokenizerFamilies_def llamaModels_def qwenModels_def
  claudeModels_def mistralModels_def gemmaModels_def phiModels_def visionModels_def
  graniteModels_def smallModels_def embeddingModels_def derivedModels_def fallbackModels_def

subsection \<open>Prefix test and range orders\<close>

lemma HasPrefix_Nil: "HasPrefix s [] = True"
  by (simp add: HasPrefix_def)

lemma HasPrefix_Nil_Cons: "HasPrefix [] (c # p) = False"
  by (simp add: HasPrefix_def)

lemma HasPrefix_Cons_Cons: "HasPrefix (a # s) (c # p) = (a = c \<and> HasPrefix s p)"
  by (auto simp add: HasPrefix_def)

lemmas HasPrefix_simps = HasPrefix_Nil HasPrefix_Nil_Cons HasPrefix_Cons_Cons

lemma range_order_refl: "distinct (map fst m) \<Longrightarrow> range_order m m"
  by (simp add: range_order_def)

lemma range_order_rev: "distinct (map fst m) \<Longrightarrow> range_order m (rev m)"
  by (simp add: range_order_def rev_map [symmetric])

lemma range_order_first:
  assumes "distinct (map fst m)" and "(k, v) \<in> set m"
  shows "range_order m (visitFirst k v m)"
proof -
  have "set (filter (\<lambda>e. fst e \<noteq> k) m) = set m - {(k, v)}"
    using assms by (auto dest: eq_key_imp_eq_value)
  with assms show ?thesis
    by (auto simp: range_order_def visitFirst_def distinct_map_filter)
qed

lemma find_None_range:
  assumes "range_order m rng" and "\<forall>e \<in> set m. \<not> P e"
  shows "find P rng = None"
  using assms by (auto simp: range_order_def find_None_iff)

lemma find_Some_range:
  assumes "range_order m rng" and "find P rng = Some e"
  shows "e \<in> set m \<and> P e"
  using assms by (auto simp: range_order_def find_Some_iff)

subsection \<open>The merged prefix table\<close>

lemma map_of_fold_update:
  "map_of (fold (\<lambda>(k, v) r. AList.update k v r) es r) = map_of (rev es @ r)"
proof (induction es arbitrary: r)
  case Nil
  show ?case by simp
next
  case (Cons e es)
  obtain k v where e: "e = (k, v)" by (cases e)
  have "map_of (rev es @ AList.update k v r) = map_of (rev es @ (k, v) # r)"
    by (rule ext) (simp add: map_add_def update_conv' split: option.splits)
  with Cons show ?case by (simp add: e)
qed

lemma distinct_fold_update:
  "distinct (map fst r) \<Longrightarrow> distinct (map fst (fold (\<lambda>(k, v) r. AList.update k v r) es r))"
  by (induction es arbitrary: r) (auto simp: distinct_update)

lemma fold_addTable:
  "fold addTable ts r = fold (\<lambda>(k, v) r. AList.update k v r) (concat ts) r"
  by (induction ts arbitrary: r) (simp_all add: addTable_def)

lemma distinct_modelPrefixToEncoding: "distinct (map fst modelPrefixToEncoding)"
  by (simp add: modelPrefixToEncoding_def buildModelPrefixToEncoding_def fold_addTable
      distinct_fold_update)

lemma map_of_modelPrefixToEncoding:
  "map_of modelPrefixToEncoding = map_of (rev (concat tablesInPriorityOrder))"
  by (simp add: modelPrefixToEncoding_def buildModelPrefixToEncoding_def fold_addTable
      map_of_fold_update)

lemma in_modelPrefixToEncoding:
  "(k, v) \<in> set modelPrefixToEncoding \<longleftrightarrow>
     map_of (rev (concat tablesInPriorityOrder)) k = Some v"
  using distinct_modelPrefixToEncoding map_of_modelPrefixToEncoding
  by (metis map_of_eq_Some_iff)

lemma modelPrefixToEncoding_subset:
  "set modelPrefixToEncoding \<subseteq> set (concat tablesInPriorityOrder)"
proof
  fix e assume "e \<in> set modelPrefixToEncoding"
  then have "map_of (rev (concat tablesInPriorityOrder)) (fst e) = Some (snd e)"
    by (simp add: in_modelPrefixToEncoding [symmetric])
  then have "(fst e, snd e) \<in> set (rev (concat tablesInPriorityOrder))"
    by (rule map_of_SomeD)
  then show "e \<in> set (concat tablesInPriorityOrder)" by simp
qed

subsection \<open>Facts about Get, the exact-match tier and the tables\<close>

lemma Get_supported:
  "Get O200kBase = Inr codec_NewO200kBase"
  "Get Cl100kBase = Inr codec_NewCl100kBase"
  "Get R50kBase = Inr codec_NewR50kBase"
  "Get P50kBase = Inr codec_NewP50kBase"
  "Get P50kEdit = Inr codec_NewP50kEdit"
  "Get OllamaLlamaBase = Inr codec_NewLLama3Base"
  by (simp_all add: Get_def encoding_defs)

lemma cases_disjoint:
  "model \<in> set casesCl100kBase \<Longrightarrow> model \<notin> set casesO200kBase"
  "model \<in> set casesP50kBase \<Longrightarrow> model \<notin> set casesO200kBase \<and> model \<notin> set casesCl100kBase"
  "model \<in> set casesR50kBase \<Longrightarrow>
     model \<notin> set casesO200kBase \<and> model \<notin> set casesCl100kBase \<and> model \<notin> set casesP50kBase"
  "model \<in> set casesP50kEdit \<Longrightarrow>
     model \<notin> set casesO200kBase \<and> model \<notin> set casesCl100kBase \<and> model \<notin> set casesP50kBase
     \<and> model \<notin> set casesR50kBase"
  by (auto simp: cases_defs model_defs)

lemma no_prefix_of_gemini:
  "find (\<lambda>(prefix, enc). HasPrefix ''gemini-1.5-pro'' prefix) (concat tablesInPriorityOrder) = None"
  by (simp add: tablesInPriorityOrder_def table_defs HasPrefix_simps)

lemma claude_entries:
  "filter (\<lambda>(prefix, enc). HasPrefix prefix ''claude'') (concat tablesInPriorityOrder) = claudeModels"
  by (simp add: tablesInPriorityOrder_def table_defs HasPrefix_simps)

lemma claude_values: "map snd claudeModels = replicate (length claudeModels) Cl100kBase"
  by (simp add: claudeModels_def AnthropicBase_def Cl100kBase_def)

lemma claude_lookup:
  "map (map_of modelPrefixToEncoding \<circ> fst) claudeModels
     = replicate (length claudeModels) (Some Cl100kBase)"
proof -
  have "(map_of modelPrefixToEncoding \<circ> fst) e = Some Cl100kBase" if e: "e \<in> set claudeModels" for e
  proof -
    obtain k v where kv: "e = (k, v)" by (cases e)
    from e have "e \<in> set (filter (\<lambda>(prefix, enc). HasPrefix prefix ''claude'')
        (concat tablesInPriorityOrder))"
      by (simp only: claude_entries)
    with kv have k: "(k, v) \<in> set (concat tablesInPriorityOrder)" "HasPrefix k ''claude''"
      by auto
    from k(1) have "k \<in> fst ` set (rev (concat tablesInPriorityOrder))"
      by force
    then obtain w where w: "map_of (rev (concat tablesInPriorityOrder)) k = Some w"
      by (meson domD domI map_of_eq_None_iff not_None_eq)
    then have "(k, w) \<in> set (concat tablesInPriorityOrder)"
      by (auto dest: map_of_SomeD)
    with k(2) have "(k, w) \<in> set (filter (\<lambda>(prefix, enc). HasPrefix prefix ''claude'')
        (concat tablesInPriorityOrder))"
      by simp
    then have "(k, w) \<in> set claudeModels"
      by (simp only: claude_entries)
    then have "w \<in> set (map snd claudeModels)"
      by force
    then have "w = Cl100kBase"
      by (simp only: claude_values) simp
    with w kv show ?thesis
      by (simp add: map_of_modelPrefixToEncoding)
  qed
  then have "map (map_of modelPrefixToEncoding \<circ> fst) claudeModels
      = map (\<lambda>_. Some Cl100kBase) claudeModels"
    by (intro map_cong refl) 
  then show ?thesis by (simp only: map_replicate_const)
qed

lemma phi3_entry: "(''phi3'', OllamaLlamaBase) \<in> set modelPrefixToEncoding"
  unfolding in_modelPrefixToEncoding
  by (simp add: tablesInPriorityOrder_def table_defs)

lemma phi_entry: "(''phi'', R50kBase) \<in> set modelPrefixToEncoding"
  unfolding in_modelPrefixToEncoding
  by (simp add: tablesInPriorityOrder_def table_defs)

lemma phi3_not_exact:
  "''phi3'' \<notin> set (casesO200kBase @ casesCl100kBase @ casesP50kBase @ casesR50kBase @ casesP50kEdit)"
  by (simp add: cases_defs model_defs)

lemma ForModel_phi3_visit_phi:
  "ForModel (visitFirst ''phi'' R50kBase modelPrefixToEncoding) ''phi3'' = Inr codec_NewR50kBase"
  using phi3_not_exact by (simp add: ForModel_def visitFirst_def HasPrefix_simps Get_supported)

lemma ForModel_phi3_visit_phi3:
  "ForModel (visitFirst ''phi3'' OllamaLlamaBase modelPrefixToEncoding) ''phi3''
     = Inr codec_NewLLama3Base"
  using phi3_not_exact by (simp add: ForModel_def visitFirst_def HasPrefix_simps Get_supported)

lemma addTable_last_wins: "map_of (addTable [(k, v)] result) k = Some v"
  by (simp add: addTable_def update_conv')

subsection \<open>What resolution gives in every order of the visit\<close>

lemma addTable_any_order:
  assumes "range_order table rng" and "distinct (map fst table)"
  shows "map_of (addTable rng result) = map_of (addTable table result)"
proof -
  from assms have "distinct (map fst (rev rng))" "distinct (map fst (rev table))"
    "set (rev rng) = set (rev table)"
    by (simp_all add: range_order_def rev_map [symmetric])
  then have "map_of (rev rng) = map_of (rev table)"
    by (simp only: map_of_inject_set)
  then show ?thesis
    by (simp add: addTable_def map_of_fold_update)
qed


lemma ForModel_order_independent:
  assumes "range_order modelPrefixToEncoding rng1" and "range_order modelPrefixToEncoding rng2"
    and "\<forall>(p1, e1) \<in> set modelPrefixToEncoding. \<forall>(p2, e2) \<in> set modelPrefixToEncoding.
           HasPrefix model p1 \<and> HasPrefix model p2 \<longrightarrow> e1 = e2"
  shows "ForModel rng1 model = ForModel rng2 model"
proof (cases "find (\<lambda>(prefix, enc). HasPrefix model prefix) rng1")
  case None
  then have "\<forall>e \<in> set modelPrefixToEncoding. \<not> (\<lambda>(prefix, enc). HasPrefix model prefix) e"
    using assms(1) by (auto simp: find_None_iff range_order_def)
  from find_None_range [OF assms(2) this] None show ?thesis
    by (simp add: ForModel_def)
next
  case (Some found)
  obtain p1 v1 where found: "found = (p1, v1)" by (cases found)
  from find_Some_range [OF assms(1) Some] found
  have 1: "(p1, v1) \<in> set modelPrefixToEncoding" "HasPrefix model p1" by auto
  then have "find (\<lambda>(prefix, enc). HasPrefix model prefix) rng2 \<noteq> None"
    using assms(2) by (auto simp: find_None_iff range_order_def)
  then obtain p2 v2 where f2: "find (\<lambda>(prefix, enc). HasPrefix model prefix) rng2 = Some (p2, v2)"
    by auto
  from find_Some_range [OF assms(2) f2]
  have 2: "(p2, v2) \<in> set modelPrefixToEncoding" "HasPrefix model p2" by auto
  from assms(3) 1 2 have "v1 = v2" by blast
  with Some found f2 show ?thesis by (simp add: ForModel_def)
qed

subsection \<open>The family tables against each other\<close>






































subsection \<open>The arithmetic of float64\<close>

lemma pow2_add: "2 powr real_of_int (a + b) = 2 powr real_of_int a * (2::real) powr real_of_int b"
  by (simp add: powr_add)

lemma pow2_nat: "2 powr real_of_int (int n) = (2::real) ^ n"
  by (simp add: powr_realpow)

lemma pow2_of_nat: "0 \<le> d \<Longrightarrow> 2 powr real_of_int d = (2::real) ^ nat d"
  using pow2_nat [of "nat d"] by simp

lemma pow2_mono: "a \<le> b \<Longrightarrow> 2 powr real_of_int a \<le> (2::real) powr real_of_int b"
  by (simp add: powr_mono)

lemma float64OfInt_exact:
  assumes "\<bar>n\<bar> < 2 ^ 53"
  shows "float64OfInt n = Float n 0"
proof -
  from assms have "bitlen \<bar>n\<bar> \<le> 53"
    by (simp add: bitlen_le_iff_power)
  then show ?thesis
    by (simp add: float64OfInt_def roundToFloat64_def finiteOrOverflow_def Let_def max_def)
qed

text \<open>Rounding to the nearest multiple of a power of two.\<close>

lemma round_nearest:
  fixes a :: int and d :: nat
  assumes "0 \<le> a" and "0 < d"
  defines "q \<equiv> a div 2 ^ d" and "r \<equiv> a mod 2 ^ d" and "half \<equiv> (2::int) ^ (d - 1)"
  defines "q' \<equiv> (if half < r \<or> (r = half \<and> odd q) then q + 1 else q)"
  shows "\<bar>q' * 2 ^ d - a\<bar> \<le> 2 ^ (d - 1)" and "0 \<le> q'" and "q' \<le> q + 1"
proof -
  have a: "a = q * 2 ^ d + r"
    unfolding q_def r_def by (rule div_mult_mod_eq [symmetric])
  have r: "0 \<le> r" "r < 2 ^ d"
    by (simp_all add: r_def)
  from assms(2) have two: "(2::int) ^ d = 2 * half"
    by (cases d) (simp_all add: half_def)
  show "\<bar>q' * 2 ^ d - a\<bar> \<le> 2 ^ (d - 1)"
  proof (cases "half < r \<or> (r = half \<and> odd q)")
    case True
    then have "q' = q + 1" by (simp add: q'_def)
    then have "q' * 2 ^ d - a = 2 ^ d - r"
      by (simp add: a algebra_simps)
    with True r two show ?thesis
      by (auto simp: half_def)
  next
    case False
    then have "q' = q" by (simp add: q'_def)
    then have "q' * 2 ^ d - a = - r"
      by (simp add: a)
    with False r show ?thesis
      by (auto simp: half_def)
  qed
  from assms(1) have "0 \<le> q"
    by (simp add: q_def pos_imp_zdiv_nonneg_iff)
  then show "0 \<le> q'" "q' \<le> q + 1"
    by (simp_all add: q'_def)
qed

text \<open>Discarding the fraction.\<close>

lemma div_real_bounds:
  fixes a D :: int
  assumes "0 < D"
  shows "real_of_int (a div D) \<le> real_of_int a / real_of_int D"
    and "real_of_int a / real_of_int D - real_of_int (a div D) < 1"
proof -
  have eq: "real_of_int (a div D) = real_of_int \<lfloor>real_of_int a / real_of_int D\<rfloor>"
    by (simp add: floor_divide_of_int_eq)
  show "real_of_int (a div D) \<le> real_of_int a / real_of_int D"
    unfolding eq by (rule of_int_floor_le)
  show "real_of_int a / real_of_int D - real_of_int (a div D) < 1"
    unfolding eq by linarith
qed

lemma truncateToInt_nonneg_exp:
  "0 \<le> e \<Longrightarrow> real_of_int (truncateToInt m e) = real_of_int m * 2 powr real_of_int e"
  by (simp add: truncateToInt_def pow2_of_nat)

lemma truncateToInt_neg_exp:
  assumes "e < 0"
  shows "\<bar>real_of_int (truncateToInt m e) - real_of_int m * 2 powr real_of_int e\<bar> < 1"
    and "\<bar>real_of_int (truncateToInt m e)\<bar> \<le> \<bar>real_of_int m * 2 powr real_of_int e\<bar>"
proof -
  define D :: int where "D = 2 ^ nat (- e)"
  have D: "0 < D" by (simp add: D_def)
  have p: "2 powr real_of_int e = 1 / real_of_int D"
  proof -
    have "2 powr real_of_int e = 1 / 2 powr real_of_int (- e)"
      by (simp add: powr_minus_divide)
    also from assms have "2 powr real_of_int (- e) = (2::real) ^ nat (- e)"
      by (intro pow2_of_nat) simp
    finally show ?thesis by (simp add: D_def)
  qed
  from assms have t: "truncateToInt m e = sgn m * (\<bar>m\<bar> div D)"
    by (simp add: truncateToInt_def D_def)
  have m: "real_of_int m = real_of_int (sgn m) * real_of_int \<bar>m\<bar>"
    by (simp add: sgn_if)
  have q: "0 \<le> \<bar>m\<bar> div D"
    using D by (simp add: pos_imp_zdiv_nonneg_iff)
  note b = div_real_bounds [OF D, of "\<bar>m\<bar>"]
  have diff: "real_of_int (truncateToInt m e) - real_of_int m * 2 powr real_of_int e
      = real_of_int (sgn m) * (real_of_int (\<bar>m\<bar> div D) - real_of_int \<bar>m\<bar> / real_of_int D)"
    unfolding t p by (simp add: sgn_if algebra_simps)
  have "\<bar>real_of_int (sgn m) * (real_of_int (\<bar>m\<bar> div D) - real_of_int \<bar>m\<bar> / real_of_int D)\<bar>
      \<le> \<bar>real_of_int (\<bar>m\<bar> div D) - real_of_int \<bar>m\<bar> / real_of_int D\<bar>"
    by (simp add: abs_mult sgn_if)
  also from b have "\<dots> < 1" by linarith
  finally show "\<bar>real_of_int (truncateToInt m e) - real_of_int m * 2 powr real_of_int e\<bar> < 1"
    unfolding diff .
  have "\<bar>real_of_int (truncateToInt m e)\<bar> \<le> real_of_int (\<bar>m\<bar> div D)"
    unfolding t using q by (simp add: abs_mult sgn_if)
  also from b have "\<dots> \<le> real_of_int \<bar>m\<bar> / real_of_int D" by simp
  also have "\<dots> = \<bar>real_of_int m * 2 powr real_of_int e\<bar>"
    unfolding p using D by (simp add: abs_mult)
  finally show "\<bar>real_of_int (truncateToInt m e)\<bar> \<le> \<bar>real_of_int m * 2 powr real_of_int e\<bar>" .
qed

lemma truncateToInt_bounds:
  "\<bar>real_of_int (truncateToInt m e) - real_of_int m * 2 powr real_of_int e\<bar> < 1"
  "\<bar>real_of_int (truncateToInt m e)\<bar> \<le> \<bar>real_of_int m * 2 powr real_of_int e\<bar>"
  using truncateToInt_nonneg_exp [of e m] truncateToInt_neg_exp [of e m]
  by (cases "0 \<le> e"; simp)+


lemma pow2_less_cancel:
  "2 powr real_of_int a < (2::real) powr real_of_int b \<Longrightarrow> a < b"
  by simp

lemma bitlen_lower:
  assumes "m \<noteq> 0"
  shows "2 powr real_of_int (bitlen \<bar>m\<bar> - 1) \<le> real_of_int \<bar>m\<bar>"
proof -
  from assms have pos: "0 < \<bar>m\<bar>" by simp
  from bitlen_bounds [OF pos] have "2 ^ nat (bitlen \<bar>m\<bar> - 1) \<le> \<bar>m\<bar>" by simp
  then have "real_of_int (2 ^ nat (bitlen \<bar>m\<bar> - 1)) \<le> real_of_int \<bar>m\<bar>"
    by (simp only: of_int_le_iff)
  then have le: "(2::real) ^ nat (bitlen \<bar>m\<bar> - 1) \<le> real_of_int \<bar>m\<bar>"
    by simp
  from pos have "bitlen \<bar>m\<bar> \<noteq> 0"
    by (simp add: bitlen_eq_zero_iff)
  with bitlen_nonneg [of "\<bar>m\<bar>"] have "0 \<le> bitlen \<bar>m\<bar> - 1" by linarith
  from pow2_of_nat [OF this] le show ?thesis by simp
qed

lemma bitlen_upper: "real_of_int \<bar>m\<bar> < 2 powr real_of_int (bitlen \<bar>m\<bar>)"
proof (cases "m = 0")
  case True
  then show ?thesis by simp
next
  case False
  then have pos: "0 < \<bar>m\<bar>" by simp
  from bitlen_bounds [OF pos] have "\<bar>m\<bar> < 2 ^ nat (bitlen \<bar>m\<bar>)" by simp
  then have "real_of_int \<bar>m\<bar> < real_of_int (2 ^ nat (bitlen \<bar>m\<bar>))"
    by (simp only: of_int_less_iff)
  then have "real_of_int \<bar>m\<bar> < (2::real) ^ nat (bitlen \<bar>m\<bar>)" by simp
  with pow2_of_nat [OF bitlen_nonneg, of "\<bar>m\<bar>"] show ?thesis by simp
qed

lemma no_overflow:
  assumes "\<bar>real_of_int m * 2 powr real_of_int e\<bar> < 2 ^ 63"
  shows "finiteOrOverflow m e = Float m e"
proof (cases "m = 0")
  case True
  then show ?thesis by (simp add: finiteOrOverflow_def)
next
  case False
  have "2 powr real_of_int (bitlen \<bar>m\<bar> - 1 + e)
      = 2 powr real_of_int (bitlen \<bar>m\<bar> - 1) * 2 powr real_of_int e"
    by (rule pow2_add)
  also from bitlen_lower [OF False] have "\<dots> \<le> real_of_int \<bar>m\<bar> * 2 powr real_of_int e"
    by (intro mult_right_mono) simp_all
  also have "\<dots> = \<bar>real_of_int m * 2 powr real_of_int e\<bar>"
    by (simp add: abs_mult)
  also note assms
  also have "(2::real) ^ 63 = 2 powr real_of_int 63"
    using pow2_of_nat [of 63] by simp
  finally have "bitlen \<bar>m\<bar> - 1 + e < 63"
    by (rule pow2_less_cancel)
  then show ?thesis by (simp add: finiteOrOverflow_def)
qed


lemma pow2_neg_small: "a \<le> - 1 \<Longrightarrow> 2 powr real_of_int a \<le> 1 / 2"
  using pow2_mono [of a "- 1"] by (simp add: powr_minus_divide)

text \<open>The rounding error of one operation: at most one part in \<open>2 ^ 53\<close> of the exact value, or
  both the exact value and the rounded one are below the smallest normal double.\<close>

lemma roundToFloat64_error:
  assumes small: "\<bar>real_of_int M * 2 powr real_of_int e\<bar> < 2 ^ 62"
  shows "\<exists>m' e'. roundToFloat64 M e = Float m' e' \<and>
    (\<bar>real_of_int m' * 2 powr real_of_int e' - real_of_int M * 2 powr real_of_int e\<bar>
        \<le> \<bar>real_of_int M * 2 powr real_of_int e\<bar> / 2 ^ 53 \<or>
     (\<bar>real_of_int M * 2 powr real_of_int e\<bar> < 1 \<and>
      \<bar>real_of_int m' * 2 powr real_of_int e'\<bar> < 1))"
proof -
  define a where "a = \<bar>M\<bar>"
  define d' where "d' = max (bitlen a - 53) (- 1074 - e)"
  define x where "x = real_of_int M * 2 powr real_of_int e"
  have absx: "\<bar>x\<bar> = real_of_int a * 2 powr real_of_int e"
    by (simp add: x_def a_def abs_mult)
  from small have small': "\<bar>x\<bar> < 2 ^ 62" by (simp add: x_def)
  show ?thesis
  proof (cases "d' \<le> 0")
    case True
    from small have "\<bar>real_of_int M * 2 powr real_of_int e\<bar> < 2 ^ 63" by simp
    from no_overflow [OF this] True have "roundToFloat64 M e = Float M e"
      by (simp add: roundToFloat64_def Let_def d'_def a_def)
    then show ?thesis by simp
  next
    case False
    define d where "d = nat d'"
    from False have d: "0 < d" "int d = d'" "nat (d' - 1) = d - 1"
      by (simp_all add: d_def)
    define q where "q = a div 2 ^ d"
    define r where "r = a mod 2 ^ d"
    define half :: int where "half = 2 ^ (d - 1)"
    define q' where "q' = (if half < r \<or> (r = half \<and> odd q) then q + 1 else q)"
    define y where "y = real_of_int (sgn M * q') * 2 powr real_of_int (e + d')"
    have a0: "0 \<le> a" by (simp add: a_def)
    have R: "roundToFloat64 M e = finiteOrOverflow (sgn M * q') (e + d')"
    proof -
      have n: "nat d' = d" by (simp add: d_def)
      show ?thesis
        unfolding roundToFloat64_def Let_def a_def [symmetric]
        unfolding d'_def [symmetric]
        unfolding n d(3) q'_def half_def r_def q_def
        using False by simp
    qed
    have err: "\<bar>q' * 2 ^ d - a\<bar> \<le> 2 ^ (d - 1)"
      unfolding q'_def half_def r_def q_def by (rule round_nearest(1) [OF a0 d(1)])
    have pe: "2 powr real_of_int (e + d') = 2 powr real_of_int e * 2 ^ d"
      using pow2_add [of e d'] pow2_nat [of d] by (simp add: d)
    have M: "real_of_int M = real_of_int (sgn M) * real_of_int a"
      by (simp add: a_def sgn_if)
    have "y - x = real_of_int (sgn M) * real_of_int (q' * 2 ^ d - a) * 2 powr real_of_int e"
      unfolding y_def x_def pe by (subst M) (simp add: algebra_simps)
    then have "\<bar>y - x\<bar> \<le> real_of_int \<bar>q' * 2 ^ d - a\<bar> * 2 powr real_of_int e"
      by (simp add: abs_mult sgn_if)
    also from err have "real_of_int \<bar>q' * 2 ^ d - a\<bar> \<le> real_of_int (2 ^ (d - 1))"
      by (simp only: of_int_le_iff)
    then have "real_of_int \<bar>q' * 2 ^ d - a\<bar> * 2 powr real_of_int e
        \<le> 2 ^ (d - 1) * 2 powr real_of_int e"
      by (intro mult_right_mono) simp_all
    finally have diff: "\<bar>y - x\<bar> \<le> 2 ^ (d - 1) * 2 powr real_of_int e" .
    show ?thesis
    proof (cases "- 1074 - e \<le> bitlen a - 53")
      case True
      define K :: real where "K = 2 ^ 53"
      have K: "0 < K" by (simp add: K_def)
      from True d have bl: "bitlen a = int (d - 1) + 54"
        by (simp add: d'_def max_def)
      then have "M \<noteq> 0"
        by (auto simp: a_def)
      from bitlen_lower [OF this] have "2 powr real_of_int (int (d - 1) + 53) \<le> real_of_int a"
        by (simp add: a_def [symmetric] bl add.commute)
      then have "(2::real) ^ (d - 1) * K \<le> real_of_int a"
        using pow2_add [of "int (d - 1)" 53] pow2_nat [of "d - 1"] pow2_nat [of 53]
        by (simp add: K_def)
      with K have "(2::real) ^ (d - 1) \<le> real_of_int a / K"
        by (simp add: pos_le_divide_eq)
      then have "2 ^ (d - 1) * 2 powr real_of_int e \<le> real_of_int a / K * 2 powr real_of_int e"
        by (intro mult_right_mono) simp_all
      also have "\<dots> = \<bar>x\<bar> / K"
        by (simp add: absx)
      finally have relK: "\<bar>y - x\<bar> \<le> \<bar>x\<bar> / K"
        using diff by linarith
      then have rel: "\<bar>y - x\<bar> \<le> \<bar>x\<bar> / 2 ^ 53"
        by (simp only: K_def)
      have "\<bar>x\<bar> / K \<le> \<bar>x\<bar> / 1"
        by (rule divide_left_mono) (simp_all add: K_def)
      with relK have "\<bar>y - x\<bar> \<le> \<bar>x\<bar>" by simp
      then have "\<bar>y\<bar> \<le> 2 * \<bar>x\<bar>" by linarith
      also from small' have "\<dots> < 2 * 2 ^ 62" by (simp only: mult_less_cancel_left_pos zero_less_numeral)
      finally have "\<bar>y\<bar> < 2 ^ 63" by simp
      then have "finiteOrOverflow (sgn M * q') (e + d') = Float (sgn M * q') (e + d')"
        unfolding y_def by (rule no_overflow)
      with R have eq: "roundToFloat64 M e = Float (sgn M * q') (e + d')"
        by simp
      from rel show ?thesis
        unfolding y_def x_def by (intro exI conjI disjI1) (rule eq)
    next
      case False
      then have d': "d' = - 1074 - e" and bl: "bitlen a \<le> d' + 52"
        by (simp_all add: d'_def max_def)
      have "real_of_int a < 2 powr real_of_int (bitlen a)"
        unfolding a_def by (simp only: abs_abs bitlen_upper)
      also from bl have "\<dots> \<le> 2 powr real_of_int (d' + 52)"
        by (rule pow2_mono)
      finally have "real_of_int a * 2 powr real_of_int e
          < 2 powr real_of_int (d' + 52) * 2 powr real_of_int e"
        by (intro mult_strict_right_mono) simp_all
      also have "\<dots> = 2 powr real_of_int (- 1022)"
        using pow2_add [of "d' + 52" e] by (simp add: d')
      also have "\<dots> \<le> 1 / 2"
        by (rule pow2_neg_small) simp
      finally have x: "\<bar>x\<bar> < 1 / 2"
        by (simp add: absx)
      have "2 ^ (d - 1) * 2 powr real_of_int e = 2 powr real_of_int (int (d - 1) + e)"
        using pow2_add [of "int (d - 1)" e] pow2_nat [of "d - 1"] by simp
      also from d have "int (d - 1) + e = - 1075"
        by (simp add: d' of_nat_diff)
      also have "2 powr real_of_int (- 1075) \<le> (1::real) / 2"
        by (rule pow2_neg_small) simp
      finally have "\<bar>y - x\<bar> \<le> 1 / 2"
        using diff by simp
      with x have y: "\<bar>y\<bar> < 1" by linarith
      then have "\<bar>y\<bar> < 2 ^ 63" by simp
      then have "finiteOrOverflow (sgn M * q') (e + d') = Float (sgn M * q') (e + d')"
        unfolding y_def by (rule no_overflow)
      with R have eq: "roundToFloat64 M e = Float (sgn M * q') (e + d')"
        by simp
      from x have "\<bar>x\<bar> < 1" by simp
      with y show ?thesis
        unfolding y_def x_def by (intro exI conjI disjI2) (rule eq)
    qed
  qed
qed


lemma int_in_range:
  assumes "\<bar>real_of_int t\<bar> < 2 ^ 63"
  shows "- (2 ^ 63) \<le> t \<and> t < 2 ^ 63"
proof -
  from assms have "real_of_int \<bar>t\<bar> < real_of_int (2 ^ 63)" by simp
  then have "\<bar>t\<bar> < 2 ^ 63" by (simp only: of_int_less_iff)
  then show ?thesis by linarith
qed

text \<open>The scaled count: the product of the count and the ratio, rounded once and cut to an
  integer, is within one plus one part in \<open>2 ^ 53\<close> of the exact product.\<close>

lemma scaled_count_bound:
  assumes count: "\<bar>count\<bar> < 2 ^ 53"
    and small: "\<bar>real_of_int count * valueOf (Float m e)\<bar> < 2 ^ 62"
  shows "\<bar>real_of_int (intOfFloat64 implDependent (float64Mul (float64OfInt count) (Float m e)))
      - real_of_int count * valueOf (Float m e)\<bar>
    < 1 + \<bar>real_of_int count * valueOf (Float m e)\<bar> / 2 ^ 53"
proof -
  define x where "x = real_of_int (count * m) * 2 powr real_of_int e"
  have x: "real_of_int count * valueOf (Float m e) = x"
    by (simp add: valueOf_def x_def)
  from small have small': "\<bar>x\<bar> < 2 ^ 62"
    by (simp only: x)
  have mul: "float64Mul (float64OfInt count) (Float m e) = roundToFloat64 (count * m) e"
    by (simp add: float64OfInt_exact [OF count] float64Mul_def)
  from roundToFloat64_error [of "count * m" e] small' obtain m' e'
    where r: "roundToFloat64 (count * m) e = Float m' e'"
      and err: "\<bar>real_of_int m' * 2 powr real_of_int e' - x\<bar> \<le> \<bar>x\<bar> / 2 ^ 53 \<or>
        (\<bar>x\<bar> < 1 \<and> \<bar>real_of_int m' * 2 powr real_of_int e'\<bar> < 1)"
    unfolding x_def by blast
  define y where "y = real_of_int m' * 2 powr real_of_int e'"
  define t where "t = truncateToInt m' e'"
  define K :: real where "K = 2 ^ 53"
  have K: "0 < K" by (simp add: K_def)
  have t1: "\<bar>real_of_int t - y\<bar> < 1" and t2: "\<bar>real_of_int t\<bar> \<le> \<bar>y\<bar>"
    unfolding t_def y_def by (rule truncateToInt_bounds)+
  from err have err': "\<bar>y - x\<bar> \<le> \<bar>x\<bar> / K \<or> (\<bar>x\<bar> < 1 \<and> \<bar>y\<bar> < 1)"
    by (simp only: y_def K_def)
  have xK: "\<bar>x\<bar> / K \<le> \<bar>x\<bar> / 1"
    by (rule divide_left_mono) (simp_all add: K_def)
  have xK0: "0 \<le> \<bar>x\<bar> / K"
    using K by simp
  have "\<bar>y\<bar> \<le> 2 * \<bar>x\<bar> \<or> \<bar>y\<bar> < 1"
    using err' xK by linarith
  moreover from small' have "2 * \<bar>x\<bar> < 2 * 2 ^ 62"
    by (simp only: mult_less_cancel_left_pos zero_less_numeral)
  then have "2 * \<bar>x\<bar> < 2 ^ 63" by simp
  moreover have "(1::real) < 2 ^ 63" by simp
  ultimately have "\<bar>y\<bar> < 2 ^ 63" by linarith
  with t2 have "\<bar>real_of_int t\<bar> < 2 ^ 63" by linarith
  from int_in_range [OF this]
  have res: "intOfFloat64 implDependent (float64Mul (float64OfInt count) (Float m e)) = t"
    by (simp add: mul r intOfFloat64_def t_def)
  have "\<bar>real_of_int t - x\<bar> < 1 + \<bar>x\<bar> / K"
  proof (cases "\<bar>y - x\<bar> \<le> \<bar>x\<bar> / K")
    case True
    with t1 show ?thesis by linarith
  next
    case False
    with err' have x1: "\<bar>x\<bar> < 1" and "\<bar>y\<bar> < 1" by simp_all
    with t2 have "\<bar>real_of_int t\<bar> < 1" by linarith
    then have "t = 0" by linarith
    with x1 xK0 show ?thesis by simp
  qed
  then show ?thesis
    by (simp only: res x K_def)
qed

lemma scaled_count_ratio_one:
  assumes "\<bar>count\<bar> < 2 ^ 53"
  shows "intOfFloat64 implDependent (float64Mul (float64OfInt count) (Float 1 0)) = count"
proof -
  have "float64Mul (float64OfInt count) (Float 1 0) = roundToFloat64 count 0"
    by (simp add: float64OfInt_exact [OF assms] float64Mul_def)
  also have "\<dots> = Float count 0"
    using float64OfInt_exact [OF assms] by (simp add: float64OfInt_def)
  finally have m: "float64Mul (float64OfInt count) (Float 1 0) = Float count 0" .
  from assms have "\<bar>count\<bar> < 2 ^ 63"
    by (rule less_trans) simp
  then have "- (2 ^ 63) \<le> count \<and> count < 2 ^ 63"
    by (auto simp: abs_less_iff)
  then show ?thesis
    by (simp add: m intOfFloat64_def truncateToInt_def)
qed

section \<open>The special tokens of the LLaMA3 codec\<close>

lemma Sprintf_d_nonempty: "Sprintf_d n \<noteq> []"
  by (subst Sprintf_d.simps) simp

lemma digit_char_inject:
  assumes "char_of (48 + a mod 10 :: nat) = char_of (48 + b mod 10 :: nat)"
  shows "a mod 10 = b mod 10"
proof -
  have "of_char (char_of (48 + a mod 10 :: nat)) = (of_char (char_of (48 + b mod 10 :: nat)) :: nat)"
    using assms by simp
  then have "(48 + a mod 10) mod 256 = (48 + b mod 10) mod 256"
    by (simp only: of_char_of)
  moreover have "48 + a mod 10 < 256" "48 + b mod 10 < 256"
    by simp_all
  ultimately show ?thesis by simp
qed

lemma Sprintf_d_small: "n < 10 \<Longrightarrow> Sprintf_d n = [char_of (48 + n mod 10)]"
  by (subst Sprintf_d.simps) simp

lemma Sprintf_d_large:
  "\<not> n < 10 \<Longrightarrow> Sprintf_d n = Sprintf_d (n div 10) @ [char_of (48 + n mod 10)]"
  by (subst Sprintf_d.simps) simp

lemma Sprintf_d_inject: "Sprintf_d a = Sprintf_d b \<Longrightarrow> a = b"
proof (induction a arbitrary: b rule: Sprintf_d.induct)
  case (1 a)
  show ?case
  proof (cases "a < 10")
    case True
    show ?thesis
    proof (cases "b < 10")
      case b: True
      from "1.prems" have "[char_of (48 + a mod 10)] = [char_of (48 + b mod 10)]"
        by (simp only: Sprintf_d_small [OF True] Sprintf_d_small [OF b])
      then have "char_of (48 + a mod 10) = char_of (48 + b mod 10)"
        by (simp only: list.inject)
      then have "a mod 10 = b mod 10"
        by (rule digit_char_inject)
      with True b show ?thesis by simp
    next
      case b: False
      from "1.prems" have "[char_of (48 + a mod 10)] = Sprintf_d (b div 10) @ [char_of (48 + b mod 10)]"
        by (simp only: Sprintf_d_small [OF True] Sprintf_d_large [OF b])
      then show ?thesis using Sprintf_d_nonempty [of "b div 10"] by simp
    qed
  next
    case False
    show ?thesis
    proof (cases "b < 10")
      case b: True
      from "1.prems" have "Sprintf_d (a div 10) @ [char_of (48 + a mod 10)] = [char_of (48 + b mod 10)]"
        by (simp only: Sprintf_d_small [OF b] Sprintf_d_large [OF False])
      then show ?thesis using Sprintf_d_nonempty [of "a div 10"] by simp
    next
      case b: False
      from "1.prems"
      have "Sprintf_d (a div 10) @ [char_of (48 + a mod 10)]
          = Sprintf_d (b div 10) @ [char_of (48 + b mod 10)]"
        by (simp only: Sprintf_d_large [OF False] Sprintf_d_large [OF b])
      then have e: "Sprintf_d (a div 10) = Sprintf_d (b div 10)"
        and d: "char_of (48 + a mod 10) = char_of (48 + b mod 10)"
        by simp_all
      from "1.IH" [OF False e] have "a div 10 = b div 10" .
      moreover from d have "a mod 10 = b mod 10" by (rule digit_char_inject)
      ultimately show ?thesis by (metis div_mult_mod_eq)
    qed
  qed
qed

lemma reservedTokenName_inject: "reservedTokenName a = reservedTokenName b \<Longrightarrow> a = b"
  by (simp add: reservedTokenName_def Sprintf_d_inject)

lemma reservedTokenName_0: "reservedTokenName 0 = ''<|reserved_special_token_0|>''"
  by code_simp

lemma reservedTokenName_1: "reservedTokenName (Suc 0) = ''<|reserved_special_token_1|>''"
  by code_simp

lemma reservedTokenName_fresh:
  assumes "2 \<le> k"
  shows "reservedTokenName k \<notin> set [''<|begin_of_text|>'', ''<|end_of_text|>'',
     ''<|reserved_special_token_0|>'',
     ''<|reserved_special_token_1|>'', ''<|finetune_right_pad_id|>'', ''<|step_id|>'',
     ''<|start_header_id|>'', ''<|end_header_id|>'', ''<|eom_id|>'', ''<|eot_id|>'',
     ''<|python_tag|>'', ''<|image|>'']"
proof -
  have "reservedTokenName k \<noteq> reservedTokenName 0" "reservedTokenName k \<noteq> reservedTokenName 1"
    using assms reservedTokenName_inject [of k 0] reservedTokenName_inject [of k 1]
    by auto
  then have a: "reservedTokenName k \<noteq> ''<|reserved_special_token_0|>''"
    and b: "reservedTokenName k \<noteq> ''<|reserved_special_token_1|>''"
    by (simp_all add: reservedTokenName_0 reservedTokenName_1)
  have c: "reservedTokenName k \<notin> set [''<|begin_of_text|>'', ''<|end_of_text|>'',
     ''<|finetune_right_pad_id|>'', ''<|step_id|>'',
     ''<|start_header_id|>'', ''<|end_header_id|>'', ''<|eom_id|>'', ''<|eot_id|>'',
     ''<|python_tag|>'', ''<|image|>'']"
    by (simp add: reservedTokenName_def)
  from a b c show ?thesis by simp
qed

lemma update_fresh: "k \<notin> fst ` set m \<Longrightarrow> AList.update k v m = m @ [(k, v)]"
  by (induction m) auto

lemma reserved_loop:
  assumes inj: "\<And>a b. nm a = nm b \<Longrightarrow> a = b"
    and fresh: "\<And>i. nm i \<notin> fst ` set literal"
  shows "fold (\<lambda>i m. AList.update (nm i) (val i) m) [0..<j] literal
      = literal @ map (\<lambda>i. (nm i, val i)) [0..<j]"
proof (induction j)
  case 0
  show ?case by simp
next
  case (Suc j)
  have "nm j \<notin> fst ` set (literal @ map (\<lambda>i. (nm i, val i)) [0..<j])"
    using fresh [of j] by (auto simp: image_iff dest: inj)
  then show ?case
    by (simp add: Suc update_fresh)
qed

lemma llama3_specialTokens:
  "specialTokens (NewLLama3Base llamaVocab llamaRegexp) =
    [(''<|begin_of_text|>'', length llamaVocab),
     (''<|end_of_text|>'', length llamaVocab + 1),
     (''<|reserved_special_token_0|>'', length llamaVocab + 2),
     (''<|reserved_special_token_1|>'', length llamaVocab + 3),
     (''<|finetune_right_pad_id|>'', length llamaVocab + 4),
     (''<|step_id|>'', length llamaVocab + 5),
     (''<|start_header_id|>'', length llamaVocab + 6),
     (''<|end_header_id|>'', length llamaVocab + 7),
     (''<|eom_id|>'', length llamaVocab + 8),
     (''<|eot_id|>'', length llamaVocab + 9),
     (''<|python_tag|>'', length llamaVocab + 10),
     (''<|image|>'', length llamaVocab + 11)]
    @ map (\<lambda>i. (reservedTokenName (2 + i), length llamaVocab + 12 + i))
        [0..<numReservedSpecialTokens - 12]"
proof -
  have inj: "\<And>a b. reservedTokenName (2 + a) = reservedTokenName (2 + b) \<Longrightarrow> a = b"
    by (auto dest: reservedTokenName_inject)
  have fresh: "\<And>i. reservedTokenName (2 + i) \<notin> fst ` set
    [(''<|begin_of_text|>'', length llamaVocab),
     (''<|end_of_text|>'', length llamaVocab + 1),
     (''<|reserved_special_token_0|>'', length llamaVocab + 2),
     (''<|reserved_special_token_1|>'', length llamaVocab + 3),
     (''<|finetune_right_pad_id|>'', length llamaVocab + 4),
     (''<|step_id|>'', length llamaVocab + 5),
     (''<|start_header_id|>'', length llamaVocab + 6),
     (''<|end_header_id|>'', length llamaVocab + 7),
     (''<|eom_id|>'', length llamaVocab + 8),
     (''<|eot_id|>'', length llamaVocab + 9),
     (''<|python_tag|>'', length llamaVocab + 10),
     (''<|image|>'', length llamaVocab + 11)]"
  proof -
    fix i :: nat
    have "2 \<le> 2 + i" by simp
    from reservedTokenName_fresh [OF this] show "?thesis i" by simp
  qed
  show ?thesis
    by (simp only: NewLLama3Base_def Let_def codec_Codec.select_convs)
      (rule reserved_loop [OF inj fresh])
qed

lemma llama3_special_ids:
  "map snd (specialTokens (NewLLama3Base llamaVocab llamaRegexp))
     = [length llamaVocab ..< length llamaVocab + 256]"
proof -
  let ?n = "length llamaVocab"
  have a: "[?n, ?n + 1, ?n + 2, ?n + 3, ?n + 4, ?n + 5, ?n + 6, ?n + 7, ?n + 8, ?n + 9,
      ?n + 10, ?n + 11] = [?n ..< ?n + 12]"
    by (simp add: upt_rec [of ?n] upt_rec [of "Suc _"])
  have b: "map (\<lambda>i. ?n + 12 + i) [0..<244] = [?n + 12 ..< ?n + 256]"
    using map_add_upt [of "?n + 12" 244] by (simp add: add.commute)
  have "[?n ..< ?n + 12 + 244] = [?n ..< ?n + 12] @ [?n + 12 ..< ?n + 12 + 244]"
    by (rule upt_add_eq_append) simp
  moreover have "?n + 12 + 244 = ?n + 256"
    by simp
  ultimately have c: "[?n ..< ?n + 12] @ [?n + 12 ..< ?n + 256] = [?n ..< ?n + 256]"
    by (simp only:)
  have "map snd (specialTokens (NewLLama3Base llamaVocab llamaRegexp)) =
      [?n, ?n + 1, ?n + 2, ?n + 3, ?n + 4, ?n + 5, ?n + 6, ?n + 7, ?n + 8, ?n + 9,
       ?n + 10, ?n + 11] @ map (\<lambda>i. ?n + 12 + i) [0..<244]"
    by (simp add: llama3_specialTokens numReservedSpecialTokens_def comp_def del: upt_Suc)
  also have "\<dots> = [?n ..< ?n + 12] @ [?n + 12 ..< ?n + 256]"
    by (simp only: a b)
  also have "\<dots> = [?n ..< ?n + 256]"
    by (rule c)
  finally show ?thesis .
qed

lemma llama3_special_names_distinct:
  "distinct (map fst (specialTokens (NewLLama3Base llamaVocab llamaRegexp)))"
proof -
  have a: "distinct [''<|begin_of_text|>'', ''<|end_of_text|>'',
     ''<|reserved_special_token_0|>'',
     ''<|reserved_special_token_1|>'', ''<|finetune_right_pad_id|>'', ''<|step_id|>'',
     ''<|start_header_id|>'', ''<|end_header_id|>'', ''<|eom_id|>'', ''<|eot_id|>'',
     ''<|python_tag|>'', ''<|image|>'']"
    by simp
  have b: "distinct (map (\<lambda>i. reservedTokenName (2 + i)) [0..<numReservedSpecialTokens - 12])"
    by (auto simp: distinct_map inj_on_def dest: reservedTokenName_inject)
  have c: "set [''<|begin_of_text|>'', ''<|end_of_text|>'',
     ''<|reserved_special_token_0|>'',
     ''<|reserved_special_token_1|>'', ''<|finetune_right_pad_id|>'', ''<|step_id|>'',
     ''<|start_header_id|>'', ''<|end_header_id|>'', ''<|eom_id|>'', ''<|eot_id|>'',
     ''<|python_tag|>'', ''<|image|>'']
     \<inter> set (map (\<lambda>i. reservedTokenName (2 + i)) [0..<numReservedSpecialTokens - 12]) = {}"
  proof -
    have "reservedTokenName (2 + i) \<notin> set [''<|begin_of_text|>'', ''<|end_of_text|>'',
     ''<|reserved_special_token_0|>'',
     ''<|reserved_special_token_1|>'', ''<|finetune_right_pad_id|>'', ''<|step_id|>'',
     ''<|start_header_id|>'', ''<|end_header_id|>'', ''<|eom_id|>'', ''<|eot_id|>'',
     ''<|python_tag|>'', ''<|image|>'']" for i
      by (rule reservedTokenName_fresh) simp
    then show ?thesis by (auto simp del: set_simps)
  qed
  have "map fst (specialTokens (NewLLama3Base llamaVocab llamaRegexp)) =
     [''<|begin_of_text|>'', ''<|end_of_text|>'',
     ''<|reserved_special_token_0|>'',
     ''<|reserved_special_token_1|>'', ''<|finetune_right_pad_id|>'', ''<|step_id|>'',
     ''<|start_header_id|>'', ''<|end_header_id|>'', ''<|eom_id|>'', ''<|eot_id|>'',
     ''<|python_tag|>'', ''<|image|>'']
     @ map (\<lambda>i. reservedTokenName (2 + i)) [0..<numReservedSpecialTokens - 12]"
    by (simp add: llama3_specialTokens comp_def)
  with a b c show ?thesis
    by (simp only: distinct_append)
qed

section \<open>The claims about model resolution and codec selection\<close>

text \<open>
  Claim C6. A model identifier listed in a \<open>case\<close> of the switch of \<open>ForModel\<close> (the
  exact-match tier) resolves to the codec of that case, whatever entries the prefix table
  holds and in whatever order they would be visited: the prefix loop is in the
  \<open>default\<close> branch only.
\<close>

theorem ForModel_exact_match:
  "(model \<in> set casesO200kBase \<longrightarrow> ForModel rng model = Inr codec_NewO200kBase) \<and>
   (model \<in> set casesCl100kBase \<longrightarrow> ForModel rng model = Inr codec_NewCl100kBase) \<and>
   (model \<in> set casesP50kBase \<longrightarrow> ForModel rng model = Inr codec_NewP50kBase) \<and>
   (model \<in> set casesR50kBase \<longrightarrow> ForModel rng model = Inr codec_NewR50kBase) \<and>
   (model \<in> set casesP50kEdit \<longrightarrow> ForModel rng model = Inr codec_NewP50kEdit)"
  using cases_disjoint [of model] by (auto simp: ForModel_def Get_supported)

theorem ForModel_exact_match_witness:
  "O1Mini \<in> set casesO200kBase \<and> HasPrefix O1Mini ''o1-'' \<and>
   ForModel [(''o1-'', R50kBase)] O1Mini = Inr codec_NewO200kBase \<and>
   ForModel [] O1Mini = Inr codec_NewO200kBase"
  using ForModel_exact_match [of O1Mini "[(''o1-'', R50kBase)]"]
    ForModel_exact_match [of O1Mini "[]"]
  by (simp add: casesO200kBase_def O1Mini_def HasPrefix_simps)

text \<open>
  Claim C7. \<open>Get\<close> returns a codec and no error for each of the six supported encoding
  identifiers and \<open>ErrEncodingNotSupported\<close> for every other identifier; \<open>ForModel\<close>
  returns \<open>ErrModelNotSupported\<close> for every identifier that is in no \<open>case\<close> of the
  switch and has no key of the prefix table as a prefix, in every order of the visit.
\<close>

theorem configuration_errors:
  "(encoding \<in> set [O200kBase, Cl100kBase, R50kBase, P50kBase, P50kEdit, OllamaLlamaBase]
      \<longrightarrow> (\<exists>c. Get encoding = Inr c)) \<and>
   (encoding \<notin> set [O200kBase, Cl100kBase, R50kBase, P50kBase, P50kEdit, OllamaLlamaBase]
      \<longrightarrow> Get encoding = Inl ErrEncodingNotSupported) \<and>
   (range_order modelPrefixToEncoding rng \<and>
    model \<notin> set (casesO200kBase @ casesCl100kBase @ casesP50kBase @ casesR50kBase @ casesP50kEdit) \<and>
    (\<forall>(prefix, enc) \<in> set modelPrefixToEncoding. \<not> HasPrefix model prefix)
      \<longrightarrow> ForModel rng model = Inl ErrModelNotSupported)"
proof (intro conjI impI)
  assume "encoding \<in> set [O200kBase, Cl100kBase, R50kBase, P50kBase, P50kEdit, OllamaLlamaBase]"
  then show "\<exists>c. Get encoding = Inr c"
    by (auto simp: Get_supported)
next
  assume "encoding \<notin> set [O200kBase, Cl100kBase, R50kBase, P50kBase, P50kEdit, OllamaLlamaBase]"
  then show "Get encoding = Inl ErrEncodingNotSupported"
    by (simp add: Get_def)
next
  assume h: "range_order modelPrefixToEncoding rng \<and>
    model \<notin> set (casesO200kBase @ casesCl100kBase @ casesP50kBase @ casesR50kBase @ casesP50kEdit) \<and>
    (\<forall>(prefix, enc) \<in> set modelPrefixToEncoding. \<not> HasPrefix model prefix)"
  then have "find (\<lambda>(prefix, enc). HasPrefix model prefix) rng = None"
    by (intro find_None_range [of modelPrefixToEncoding]) auto
  with h show "ForModel rng model = Inl ErrModelNotSupported"
    by (simp add: ForModel_def)
qed

theorem configuration_errors_witness:
  "Get R50kBase = Inr codec_NewR50kBase \<and>
   Get ''gpt2'' = Inl ErrEncodingNotSupported \<and>
   range_order modelPrefixToEncoding modelPrefixToEncoding \<and>
   find (\<lambda>(prefix, enc). HasPrefix ''gemini-1.5-pro'' prefix) modelPrefixToEncoding = None \<and>
   ForModel modelPrefixToEncoding ''gemini-1.5-pro'' = Inl ErrModelNotSupported"
proof -
  have r: "range_order modelPrefixToEncoding modelPrefixToEncoding"
    by (rule range_order_refl [OF distinct_modelPrefixToEncoding])
  have "\<forall>e \<in> set (concat tablesInPriorityOrder).
          \<not> (case e of (prefix, enc) \<Rightarrow> HasPrefix ''gemini-1.5-pro'' prefix)"
    using no_prefix_of_gemini by (simp only: find_None_iff) blast
  with modelPrefixToEncoding_subset
  have n: "\<forall>(prefix, enc) \<in> set modelPrefixToEncoding. \<not> HasPrefix ''gemini-1.5-pro'' prefix"
    by blast
  then have f: "find (\<lambda>(prefix, enc). HasPrefix ''gemini-1.5-pro'' prefix) modelPrefixToEncoding = None"
    by (auto simp: find_None_iff)
  have e: "''gemini-1.5-pro'' \<notin>
      set (casesO200kBase @ casesCl100kBase @ casesP50kBase @ casesR50kBase @ casesP50kEdit)"
    by (simp add: cases_defs model_defs)
  have g: "''gpt2'' \<notin> set [O200kBase, Cl100kBase, R50kBase, P50kBase, P50kEdit, OllamaLlamaBase]"
    by (simp add: encoding_defs)
  show ?thesis
    using configuration_errors [of "''gpt2''" modelPrefixToEncoding "''gemini-1.5-pro''"]
      configuration_errors [of R50kBase modelPrefixToEncoding "''gemini-1.5-pro''"]
      r n f e g
    by (simp add: Get_supported)
qed

text \<open>
  Claim C9. \<open>AnthropicBase\<close> is the string \<open>cl100k_base\<close>, the same as \<open>Cl100kBase\<close>, so
  \<open>Get AnthropicBase\<close> returns the Cl100k codec; the entries of the family tables whose key
  starts with \<open>claude\<close> are those of \<open>claudeModels\<close>, all of them map to \<open>Cl100kBase\<close>, and
  so does the merged table at each of these keys.
\<close>

theorem AnthropicBase_is_Cl100kBase:
  "AnthropicBase = ''cl100k_base'' \<and> AnthropicBase = Cl100kBase \<and>
   Get AnthropicBase = Inr codec_NewCl100kBase \<and>
   filter (\<lambda>(prefix, enc). HasPrefix prefix ''claude'') (concat tablesInPriorityOrder) = claudeModels \<and>
   map snd claudeModels = replicate (length claudeModels) Cl100kBase \<and>
   map (map_of modelPrefixToEncoding \<circ> fst) claudeModels
     = replicate (length claudeModels) (Some Cl100kBase)"
proof (intro conjI)
  show "AnthropicBase = ''cl100k_base''" by (simp add: AnthropicBase_def)
  show a: "AnthropicBase = Cl100kBase" by (simp add: AnthropicBase_def Cl100kBase_def)
  show "Get AnthropicBase = Inr codec_NewCl100kBase" by (simp add: a Get_supported)
  show "filter (\<lambda>(prefix, enc). HasPrefix prefix ''claude'') (concat tablesInPriorityOrder) = claudeModels"
    by (rule claude_entries)
  show "map snd claudeModels = replicate (length claudeModels) Cl100kBase"
    by (rule claude_values)
  show "map (map_of modelPrefixToEncoding \<circ> fst) claudeModels
     = replicate (length claudeModels) (Some Cl100kBase)"
    by (rule claude_lookup)
qed

text \<open>
  Claim C10. A codec that \<open>Get\<close> returns is the codec of one of the six families
  \<open>o200k_base\<close>, \<open>cl100k_base\<close>, \<open>r50k_base\<close>, \<open>p50k_base\<close>, \<open>p50k_edit\<close> and \<open>llama\<close>,
  and the identifier asked for is one of these six; the codec of \<open>NewGPT2Base\<close> (name
  \<open>gpt2\<close>, special token \<open><|endoftext|>\<close> with id 50256) is never returned, and its name is
  not an identifier that \<open>Get\<close> supports.
\<close>

theorem Get_six_families:
  "(Get encoding = Inr c \<longrightarrow>
      c \<in> {codec_NewO200kBase, codec_NewCl100kBase, codec_NewR50kBase, codec_NewP50kBase,
            codec_NewP50kEdit, codec_NewLLama3Base} \<and>
      c \<noteq> codec_NewGPT2Base \<and>
      encoding \<in> set [O200kBase, Cl100kBase, R50kBase, P50kBase, P50kEdit, OllamaLlamaBase]) \<and>
   name (NewGPT2Base gpt2BaseVocab gpt2Regexp) = ''gpt2'' \<and>
   specialTokens (NewGPT2Base gpt2BaseVocab gpt2Regexp) = [(''<|endoftext|>'', 50256)] \<and>
   Get (name (NewGPT2Base gpt2BaseVocab gpt2Regexp)) = Inl ErrEncodingNotSupported"
  by (auto simp: Get_def NewGPT2Base_def encoding_defs split: if_splits)

theorem Get_six_families_witness:
  "Get ''llama'' = Inr codec_NewLLama3Base \<and> codec_NewLLama3Base \<noteq> codec_NewGPT2Base \<and>
   Get ''gpt2'' = Inl ErrEncodingNotSupported"
  using Get_six_families [of "''llama''" codec_NewLLama3Base "[]" "()"]
  by (simp add: Get_def encoding_defs NewGPT2Base_def)

text \<open>
  Claim C5. When the model resolves to a codec and the codec counts \<open>count\<close> tokens,
  \<open>Count\<close> returns \<open>count\<close> unchanged if no key of \<open>Ratios\<close> is a prefix of the model
  name. If some key is, \<open>Count\<close> returns \<open>int(float64(count) * ratio)\<close> for an entry
  \<open>(prefix, ratio)\<close> of \<open>Ratios\<close> whose key is a prefix of the model name: the product of
  the count and the ratio in \<open>float64\<close> arithmetic, its fraction discarded. For a finite
  ratio, a count below \<open>2 ^ 53\<close> and a product below \<open>2 ^ 62\<close> in magnitude, this result
  differs from the exact product of the count and the ratio by less than one plus one
  part in \<open>2 ^ 53\<close> of the product. Scaling by the ratio \<open>1.0\<close> leaves a count below
  \<open>2 ^ 53\<close> unchanged.
\<close>

theorem Count_applies_ratio:
  assumes "ForModel rng model = Inr enc" and "codecCount enc input = Inr count"
    and "range_order Ratios ratiosRng"
  shows "((\<forall>(prefix, ratio) \<in> set Ratios. \<not> HasPrefix model prefix) \<longrightarrow>
            Count codecCount implDependent ratiosRng rng model input = Inr count) \<and>
         ((\<exists>(prefix, ratio) \<in> set Ratios. HasPrefix model prefix) \<longrightarrow>
            (\<exists>(prefix, ratio) \<in> set Ratios. HasPrefix model prefix \<and>
               Count codecCount implDependent ratiosRng rng model input
                 = Inr (intOfFloat64 implDependent (float64Mul (float64OfInt count) ratio)) \<and>
               (ratio \<noteq> NonFinite \<and> \<bar>count\<bar> < 2 ^ 53 \<and>
                \<bar>real_of_int count * valueOf ratio\<bar> < 2 ^ 62 \<longrightarrow>
                  \<bar>real_of_int (intOfFloat64 implDependent (float64Mul (float64OfInt count) ratio))
                     - real_of_int count * valueOf ratio\<bar>
                    < 1 + \<bar>real_of_int count * valueOf ratio\<bar> / 2 ^ 53))) \<and>
         (\<bar>count\<bar> < 2 ^ 53 \<longrightarrow>
            intOfFloat64 implDependent (float64Mul (float64OfInt count) (Float 1 0)) = count)"
proof (intro conjI impI)
  assume "\<forall>(prefix, ratio) \<in> set Ratios. \<not> HasPrefix model prefix"
  then have "find (\<lambda>(prefix, ratio). HasPrefix model prefix) ratiosRng = None"
    using assms(3) by (intro find_None_range [of Ratios]) auto
  with assms show "Count codecCount implDependent ratiosRng rng model input = Inr count"
    by (simp add: Count_def)
next
  assume "\<exists>(prefix, ratio) \<in> set Ratios. HasPrefix model prefix"
  then have "find (\<lambda>(prefix, ratio). HasPrefix model prefix) ratiosRng \<noteq> None"
    using assms(3) by (auto simp: find_None_iff range_order_def)
  then obtain p r where f: "find (\<lambda>(prefix, ratio). HasPrefix model prefix) ratiosRng = Some (p, r)"
    by auto
  from find_Some_range [OF assms(3) f] have pr: "(p, r) \<in> set Ratios" "HasPrefix model p"
    by auto
  from assms f have c: "Count codecCount implDependent ratiosRng rng model input
      = Inr (intOfFloat64 implDependent (float64Mul (float64OfInt count) r))"
    by (simp add: Count_def)
  have b: "\<bar>real_of_int (intOfFloat64 implDependent (float64Mul (float64OfInt count) r))
        - real_of_int count * valueOf r\<bar>
      < 1 + \<bar>real_of_int count * valueOf r\<bar> / 2 ^ 53"
    if "r \<noteq> NonFinite \<and> \<bar>count\<bar> < 2 ^ 53 \<and> \<bar>real_of_int count * valueOf r\<bar> < 2 ^ 62"
  proof -
    from that obtain m e where r: "r = Float m e"
      by (cases r) auto
    from that show ?thesis
      unfolding r by (intro scaled_count_bound) simp_all
  qed
  from pr c b
  show "\<exists>(prefix, ratio) \<in> set Ratios. HasPrefix model prefix \<and>
      Count codecCount implDependent ratiosRng rng model input
        = Inr (intOfFloat64 implDependent (float64Mul (float64OfInt count) ratio)) \<and>
      (ratio \<noteq> NonFinite \<and> \<bar>count\<bar> < 2 ^ 53 \<and>
       \<bar>real_of_int count * valueOf ratio\<bar> < 2 ^ 62 \<longrightarrow>
         \<bar>real_of_int (intOfFloat64 implDependent (float64Mul (float64OfInt count) ratio))
            - real_of_int count * valueOf ratio\<bar>
           < 1 + \<bar>real_of_int count * valueOf ratio\<bar> / 2 ^ 53)"
    by blast
next
  assume "\<bar>count\<bar> < 2 ^ 53"
  then show "intOfFloat64 implDependent (float64Mul (float64OfInt count) (Float 1 0)) = count"
    by (rule scaled_count_ratio_one)
qed

theorem Count_applies_ratio_witness:
  "ForModel [] GPT4 = Inr codec_NewCl100kBase \<and>
   range_order [(''gpt-4'', Float 4953959590107546 (- 52))]
     [(''gpt-4'', Float 4953959590107546 (- 52))] \<and>
   HasPrefix GPT4 ''gpt-4'' \<and> \<not> HasPrefix GPT4 ''claude'' \<and>
   Count (\<lambda>enc s. Inr 47) (\<lambda>f. 0) [(''gpt-4'', Float 4953959590107546 (- 52))] [] GPT4
     ''some text'' = Inr 51 \<and>
   Count (\<lambda>enc s. Inr 47) (\<lambda>f. 0) [(''claude'', Float 4953959590107546 (- 52))] [] GPT4
     ''some text'' = Inr 47 \<and>
   valueOf (Float 4953959590107546 (- 52)) = 4953959590107546 / 2 ^ 52 \<and>
   \<bar>51 - 47 * valueOf (Float 4953959590107546 (- 52))\<bar>
     < 1 + \<bar>47 * valueOf (Float 4953959590107546 (- 52))\<bar> / 2 ^ 53 \<and>
   intOfFloat64 (\<lambda>f. 0) (float64Mul (float64OfInt 47) (Float 1 0)) = 47"
proof -
  have f: "ForModel [] GPT4 = Inr codec_NewCl100kBase"
    by (simp add: ForModel_def cases_defs model_defs Get_supported)
  have c: "(\<lambda>enc s. Inr 47 :: error + int) codec_NewCl100kBase ''some text'' = Inr 47"
    by simp
  have r1: "range_order [(''gpt-4'', Float 4953959590107546 (- 52))]
      [(''gpt-4'', Float 4953959590107546 (- 52))]"
    and r2: "range_order [(''claude'', Float 4953959590107546 (- 52))]
      [(''claude'', Float 4953959590107546 (- 52))]"
    by (simp_all add: range_order_def)
  have p: "HasPrefix GPT4 ''gpt-4''" "\<not> HasPrefix GPT4 ''claude''"
    by (simp_all add: GPT4_def HasPrefix_simps)
  have v: "valueOf (Float 4953959590107546 (- 52)) = 4953959590107546 / 2 ^ 52"
    using pow2_of_nat [of 52] by (simp add: valueOf_def powr_minus_divide)
  have k: "intOfFloat64 (\<lambda>f. 0) (float64Mul (float64OfInt 47) (Float 4953959590107546 (- 52))) = 51"
    by code_simp
  from Count_applies_ratio [OF f c r1, where implDependent = "\<lambda>f. 0" and input = "''some text''",
      THEN conjunct2, THEN conjunct1] p(1)
  have ab: "Count (\<lambda>enc s. Inr 47) (\<lambda>f. 0) [(''gpt-4'', Float 4953959590107546 (- 52))] [] GPT4
       ''some text'' = Inr 51 \<and>
     (Float 4953959590107546 (- 52) \<noteq> NonFinite \<and> \<bar>47::int\<bar> < 2 ^ 53 \<and>
        \<bar>real_of_int 47 * valueOf (Float 4953959590107546 (- 52))\<bar> < 2 ^ 62 \<longrightarrow>
      \<bar>real_of_int 51 - real_of_int 47 * valueOf (Float 4953959590107546 (- 52))\<bar>
        < 1 + \<bar>real_of_int 47 * valueOf (Float 4953959590107546 (- 52))\<bar> / 2 ^ 53)"
    by (simp only: k list.set ball_simps bex_simps case_prod_conv simp_thms) blast
  note a = ab [THEN conjunct1]
  from ab [THEN conjunct2] have b: "\<bar>51 - 47 * valueOf (Float 4953959590107546 (- 52))\<bar>
      < 1 + \<bar>47 * valueOf (Float 4953959590107546 (- 52))\<bar> / 2 ^ 53"
    by (simp add: v)
  from Count_applies_ratio [OF f c r2, where implDependent = "\<lambda>f. 0" and input = "''some text''",
      THEN conjunct1] p(2)
  have n: "Count (\<lambda>enc s. Inr 47) (\<lambda>f. 0) [(''claude'', Float 4953959590107546 (- 52))] [] GPT4
       ''some text'' = Inr 47"
    by simp
  from Count_applies_ratio [OF f c r1, where implDependent = "\<lambda>f. 0" and input = "''some text''",
      THEN conjunct2, THEN conjunct2]
  have o: "intOfFloat64 (\<lambda>f. 0) (float64Mul (float64OfInt 47) (Float 1 0)) = 47"
    by simp
  from f r1 p a n v b o show ?thesis by (simp only: simp_thms)
qed

text \<open>
  Claim C8. The special-token table that \<open>NewLLama3Base\<close> builds has 256 entries with
  pairwise distinct literal strings and pairwise distinct ids; the ids are exactly the
  numbers from \<open>len(vocabulary)\<close> to \<open>len(vocabulary) + 255\<close>; and when every rank of the
  vocabulary is below \<open>len(vocabulary)\<close> (ranks are dense from 0), every id is above
  every rank.
\<close>

theorem llama3_special_token_table:
  "length (specialTokens (NewLLama3Base llamaVocab llamaRegexp)) = 256 \<and>
   distinct (map fst (specialTokens (NewLLama3Base llamaVocab llamaRegexp))) \<and>
   distinct (map snd (specialTokens (NewLLama3Base llamaVocab llamaRegexp))) \<and>
   snd ` set (specialTokens (NewLLama3Base llamaVocab llamaRegexp))
     = {length llamaVocab .. length llamaVocab + 255} \<and>
   ((\<forall>(bytes, rank) \<in> set llamaVocab. rank < length llamaVocab) \<longrightarrow>
    (\<forall>(bytes, rank) \<in> set llamaVocab.
       \<forall>(literal, tid) \<in> set (specialTokens (NewLLama3Base llamaVocab llamaRegexp)). rank < tid))"
proof -
  let ?st = "specialTokens (NewLLama3Base llamaVocab llamaRegexp)"
  have len: "length ?st = 256"
    using arg_cong [OF llama3_special_ids [of llamaVocab llamaRegexp], of length] by simp
  have d: "distinct (map snd ?st)"
    by (simp only: llama3_special_ids distinct_upt)
  have "set (map snd ?st) = {length llamaVocab ..< length llamaVocab + 256}"
    by (simp only: llama3_special_ids set_upt)
  then have r: "snd ` set ?st = {length llamaVocab .. length llamaVocab + 255}"
    by auto
  have "rank < tid"
    if "\<forall>(bytes, rank) \<in> set llamaVocab. rank < length llamaVocab"
      and "(bytes, rank) \<in> set llamaVocab" and "(literal, tid) \<in> set ?st"
    for bytes rank literal tid
  proof -
    from that(3) have "tid \<in> snd ` set ?st" by force
    with r have "length llamaVocab \<le> tid" by simp
    moreover from that(1,2) have "rank < length llamaVocab" by auto
    ultimately show ?thesis by simp
  qed
  with len d r llama3_special_names_distinct [of llamaVocab llamaRegexp] show ?thesis
    by blast
qed

theorem llama3_special_token_table_witness:
  "length (specialTokens (NewLLama3Base [(''a'', 0), (''b'', 1), (''ab'', 2)] ())) = 256 \<and>
   snd ` set (specialTokens (NewLLama3Base [(''a'', 0), (''b'', 1), (''ab'', 2)] ())) = {3 .. 258} \<and>
   list_all (\<lambda>(bytes, rank). rank < 3) [(''a'', 0), (''b'', 1), (''ab'', 2 :: nat)] \<and>
   list_all (\<lambda>(literal, tid). 2 < tid)
     (specialTokens (NewLLama3Base [(''a'', 0), (''b'', 1), (''ab'', 2)] ()))"
proof -
  have h: "\<forall>(bytes, rank) \<in> set [(''a'', 0), (''b'', 1), (''ab'', 2 :: nat)].
      rank < length [(''a'', 0), (''b'', 1), (''ab'', 2 :: nat)]"
    by simp
  from llama3_special_token_table [of "[(''a'', 0), (''b'', 1), (''ab'', 2)]" "()"] h
  show ?thesis
    by (simp add: list_all_iff) 
qed



text \<open>
  Claim C4, evaluated on the code. For the model name \<open>phi3\<close> two visits of the same
  merged table give two results: the LLaMA codec when the key \<open>phi3\<close> is met first, the
  R50k codec when the key \<open>phi\<close> is met first.
\<close>

theorem ForModel_phi3_two_orders:
  "range_order modelPrefixToEncoding (visitFirst ''phi3'' OllamaLlamaBase modelPrefixToEncoding) \<and>
   range_order modelPrefixToEncoding (visitFirst ''phi'' R50kBase modelPrefixToEncoding) \<and>
   ForModel (visitFirst ''phi3'' OllamaLlamaBase modelPrefixToEncoding) ''phi3''
     = Inr codec_NewLLama3Base \<and>
   ForModel (visitFirst ''phi'' R50kBase modelPrefixToEncoding) ''phi3''
     = Inr codec_NewR50kBase"
  using range_order_first [OF distinct_modelPrefixToEncoding phi3_entry]
    range_order_first [OF distinct_modelPrefixToEncoding phi_entry]
    ForModel_phi3_visit_phi ForModel_phi3_visit_phi3
  by simp

section \<open>Properties of the codec engine\<close>

subsection \<open>Running a step over a list\<close>

lemma collect_all_Inr:
  "(\<And>x. x \<in> set xs \<Longrightarrow> f x = Inr (g x)) \<Longrightarrow> collect f xs = Inr (concat (map g xs))"
  by (induction xs) simp_all

lemma collect_Inr_D:
  "collect f xs = Inr ys \<Longrightarrow>
     (\<forall>x \<in> set xs. \<exists>zs. f x = Inr zs) \<and> ys = concat (map (\<lambda>x. projr (f x)) xs)"
  by (induction xs arbitrary: ys) (auto split: sum.splits)

lemma sumCounts_collect:
  "(\<And>x. x \<in> set xs \<Longrightarrow> g x = map_sum (\<lambda>e. e) (\<lambda>ys. int (length ys)) (f x)) \<Longrightarrow>
     sumCounts g xs = map_sum (\<lambda>e. e) (\<lambda>ys. int (length ys)) (collect f xs)"
  by (induction xs) (auto split: sum.splits)

subsection \<open>The splitter and the recognizer keep the text\<close>

lemma split_concat: "split findMatch text = Inr chunks \<Longrightarrow> concat chunks = text"
proof (induction findMatch "text" arbitrary: chunks rule: split.induct)
  case (1 findMatch)
  then show ?case by simp
next
  case (2 findMatch c cs)
  from "2.prems" obtain n rest where n: "findMatch (c # cs) = Some n" "n \<noteq> 0" "n \<le> length (c # cs)"
    and rest: "split findMatch (drop (n - 1) cs) = Inr rest"
    and chunks: "chunks = take n (c # cs) # rest"
    by (auto split: option.splits if_splits sum.splits)
  from n have "\<not> (n = 0 \<or> length (c # cs) < n)" by simp
  from "2.IH" [OF n(1) this rest] have "concat rest = drop (n - 1) cs" .
  moreover from n(2) have "drop (n - 1) cs = drop n (c # cs)"
    by (cases n) simp_all
  ultimately show ?case
    by (simp add: chunks)
qed

lemma split_total: "alwaysMatches findMatch \<Longrightarrow> \<exists>chunks. split findMatch text = Inr chunks"
proof (induction findMatch "text" rule: split.induct)
  case (1 findMatch)
  show ?case by simp
next
  case (2 findMatch c cs)
  from "2.prems" obtain n where n: "findMatch (c # cs) = Some n" "1 \<le> n" "n \<le> length (c # cs)"
    unfolding alwaysMatches_def by blast
  then have g: "\<not> (n = 0 \<or> length (c # cs) < n)" by simp
  from "2.IH" [OF n(1) g "2.prems"] obtain rest where "split findMatch (drop (n - 1) cs) = Inr rest"
    by blast
  with n g show ?case by simp
qed

lemma longestSpecial_Some:
  "longestSpecial table t = Some (literal, tid) \<Longrightarrow>
     (literal, tid) \<in> set table \<and> literal \<noteq> [] \<and> HasPrefix t literal"
proof (induction table arbitrary: literal tid)
  case Nil
  then show ?case by simp
next
  case (Cons entry table)
  obtain l i where entry: "entry = (l, i)" by (cases entry)
  show ?case
  proof (cases "l \<noteq> [] \<and> HasPrefix t l")
    case False
    with Cons.prems entry have "longestSpecial table t = Some (literal, tid)"
      by simp
    from Cons.IH [OF this] show ?thesis by simp
  next
    case True
    show ?thesis
    proof (cases "longestSpecial table t")
      case None
      with Cons.prems entry True show ?thesis by simp
    next
      case (Some found)
      obtain l' i' where found: "found = (l', i')" by (cases found)
      from Cons.IH [of l' i'] Some found
      have "(l', i') \<in> set table \<and> l' \<noteq> [] \<and> HasPrefix t l'" by simp
      with Cons.prems entry True Some found show ?thesis
        by (cases "length l < length l'") auto
    qed
  qed
qed

lemma HasPrefix_consume:
  assumes "HasPrefix (c # cs) literal" and "literal \<noteq> []"
  shows "literal @ drop (length literal - 1) cs = c # cs"
proof -
  from assms have "take (length literal) (c # cs) = literal"
    by (simp add: HasPrefix_def)
  moreover from assms(2) have "drop (length literal - 1) cs = drop (length literal) (c # cs)"
    by (cases literal) simp_all
  ultimately show ?thesis
    by (metis append_take_drop_id)
qed

lemma concat_flushPlain: "concat (map segmentText (flushPlain plain)) = plain"
  by (simp add: flushPlain_def segmentText_def)

lemma recognize_text: "concat (map segmentText (recognize table plain text)) = plain @ text"
proof (induction table plain "text" rule: recognize.induct)
  case (1 table plain)
  show ?case by (simp add: concat_flushPlain)
next
  case (2 table plain c cs)
  show ?case
  proof (cases "longestSpecial table (c # cs)")
    case None
    with "2.IH"(1) show ?thesis by simp
  next
    case (Some found)
    obtain literal tid where found: "found = (literal, tid)" by (cases found)
    from longestSpecial_Some [of table "c # cs" literal tid] Some found
    have "HasPrefix (c # cs) literal" "literal \<noteq> []"
      by simp_all
    then have "literal @ drop (length literal - 1) cs = c # cs"
      by (rule HasPrefix_consume)
    moreover from "2.IH"(2) [OF Some found [symmetric]]
    have "concat (map segmentText (recognize table [] (drop (length literal - 1) cs)))
        = drop (length literal - 1) cs"
      by simp
    ultimately show ?thesis
      using Some found by (simp add: concat_flushPlain) (simp add: segmentText_def)
  qed
qed

lemma recognize_Special:
  "Special literal tid \<in> set (recognize table plain text) \<Longrightarrow> (literal, tid) \<in> set table"
proof (induction table plain "text" rule: recognize.induct)
  case (1 table plain)
  then show ?case by (simp add: flushPlain_def split: if_splits)
next
  case (2 table plain c cs)
  show ?case
  proof (cases "longestSpecial table (c # cs)")
    case None
    with 2 show ?thesis by simp
  next
    case (Some found)
    obtain l t where found: "found = (l, t)" by (cases found)
    from "2.prems" Some found
    consider "Special literal tid = Special l t"
      | "Special literal tid \<in> set (recognize table [] (drop (length l - 1) cs))"
      by (auto simp: flushPlain_def split: if_splits)
    then show ?thesis
    proof cases
      case 1
      with longestSpecial_Some [of table "c # cs" l t] Some found show ?thesis by simp
    next
      case 2
      from "2.IH"(2) [OF Some found [symmetric] 2] show ?thesis .
    qed
  qed
qed

subsection \<open>The merge keeps the bytes and ends in ranked parts\<close>

lemma concat_mergeAt: "concat (mergeAt i parts) = concat parts"
  by (induction i parts rule: mergeAt.induct) simp_all

lemma set_mergeAt:
  "i + 1 < length parts \<Longrightarrow> set (mergeAt i parts) \<subseteq> insert (parts ! i @ parts ! (i + 1)) (set parts)"
  by (induction i parts rule: mergeAt.induct) auto

lemma concat_mergeParts: "concat (mergeParts vocab parts) = concat parts"
proof (induction vocab parts rule: mergeParts.induct)
  case (1 vocab parts)
  show ?case
  proof (cases "bestPair vocab parts 0 None")
    case None
    then show ?thesis by (subst mergeParts.simps) simp
  next
    case (Some best)
    obtain i r where best: "best = (i, r)" by (cases best)
    from "1.IH" [OF Some best [symmetric]] Some best show ?thesis
      by (subst mergeParts.simps) (simp add: concat_mergeAt)
  qed
qed

lemma ranked_mergeParts:
  "(\<forall>p \<in> set parts. rankOf vocab p \<noteq> None) \<Longrightarrow>
     (\<forall>p \<in> set (mergeParts vocab parts). rankOf vocab p \<noteq> None)"
proof (induction vocab parts rule: mergeParts.induct)
  case (1 vocab parts)
  show ?case
  proof (cases "bestPair vocab parts 0 None")
    case None
    with "1.prems" show ?thesis by (subst mergeParts.simps) simp
  next
    case (Some best)
    obtain i r where best: "best = (i, r)" by (cases best)
    from bestPair_index [of vocab parts 0 None i r] Some best
    have i: "i + 1 < length parts" "rankOf vocab (parts ! i @ parts ! (i + 1)) = Some r"
      by simp_all
    from set_mergeAt [OF i(1)] i(2) "1.prems"
    have "\<forall>p \<in> set (mergeAt i parts). rankOf vocab p \<noteq> None"
      by auto
    from "1.IH" [OF Some best [symmetric] this] Some best show ?thesis
      by (subst mergeParts.simps) simp
  qed
qed

subsection \<open>Decoding what the encoder produced\<close>

lemma rankOf_in_vocab: "rankOf vocab p = Some r \<Longrightarrow> (p, r) \<in> set vocab"
  by (simp add: rankOf_def map_of_SomeD)

lemma inverse_lookup:
  assumes "distinct (map snd m)" and "(k, v) \<in> set m"
  shows "map_of (map (\<lambda>(k, v). (v, k)) m) v = Some k"
proof -
  have "map fst (map (\<lambda>(k, v). (v, k)) m) = map snd m"
    by (induction m) auto
  with assms(1) have "distinct (map fst (map (\<lambda>(k, v). (v, k)) m))"
    by (simp only:)
  moreover from assms(2) have "(v, k) \<in> set (map (\<lambda>(k, v). (v, k)) m)"
    by force
  ultimately show ?thesis
    by (rule map_of_is_SomeI)
qed

lemma decodeId_rank:
  assumes "wellFormed c" and "rankOf (vocabulary c) p = Some r"
  shows "decodeId c r = Inr p"
proof -
  from assms(2) have in_vocab: "(p, r) \<in> set (vocabulary c)"
    by (rule rankOf_in_vocab)
  then have "r \<in> snd ` set (vocabulary c)"
    by force
  with assms(1) have below: "r < length (vocabulary c)"
    unfolding wellFormed_def by blast
  from assms(1) have "distinct (map snd (vocabulary c))"
    by (simp add: wellFormed_def)
  from inverse_lookup [OF this in_vocab] have "bytesOf (vocabulary c) r = Some p"
    by (simp add: bytesOf_def)
  with below show ?thesis
    by (simp add: decodeId_def)
qed

lemma decodeId_special:
  assumes "wellFormed c" and "(literal, tid) \<in> set (specialTokens c)"
  shows "decodeId c tid = Inr literal"
proof -
  from assms(2) have "tid \<in> snd ` set (specialTokens c)"
    by force
  with assms(1) have "length (vocabulary c) \<le> tid"
    unfolding wellFormed_def by blast
  then have above: "\<not> tid < length (vocabulary c)"
    by simp
  from assms(1) have "distinct (map snd (specialTokens c))"
    by (simp add: wellFormed_def)
  from inverse_lookup [OF this assms(2)] above show ?thesis
    by (simp add: decodeId_def)
qed

lemma decode_tokens:
  "(\<And>tok. tok \<in> set toks \<Longrightarrow> decodeId c (fst tok) = Inr (snd tok)) \<Longrightarrow>
     codec_Decode c (map fst toks) = Inr (concat (map snd toks))"
  unfolding codec_Decode_def by (induction toks) simp_all

subsection \<open>One chunk\<close>

lemma single_bytes_ranked:
  assumes "wellFormed c"
  shows "\<forall>p \<in> set (map (\<lambda>b. [b]) chunk). rankOf (vocabulary c) p \<noteq> None"
proof
  fix p assume "p \<in> set (map (\<lambda>b. [b]) chunk)"
  then obtain b where "p = [b]" by auto
  moreover from assms have "[b] \<in> fst ` set (vocabulary c)"
    by (simp add: wellFormed_def)
  ultimately show "rankOf (vocabulary c) p \<noteq> None"
    by (simp add: rankOf_def map_of_eq_None_iff)
qed

lemma merge_result:
  assumes "wellFormed c"
  shows "merge chunk (vocabulary c) =
    Inr (map (\<lambda>p. (the (rankOf (vocabulary c) p), p))
          (mergeParts (vocabulary c) (map (\<lambda>b. [b]) chunk)))"
proof -
  let ?parts = "mergeParts (vocabulary c) (map (\<lambda>b. [b]) chunk)"
  from ranked_mergeParts [OF single_bytes_ranked [OF assms]]
  have "\<forall>p \<in> set ?parts. rankOf (vocabulary c) p \<noteq> None" .
  then have "rankPart (vocabulary c) p = Inr [(the (rankOf (vocabulary c) p), p)]"
    if "p \<in> set ?parts" for p
    using that by (auto simp: rankPart_def)
  from collect_all_Inr [of ?parts "rankPart (vocabulary c)", OF this]
  show ?thesis
    by (simp add: merge_def comp_def)
qed

lemma merge_tokens:
  assumes "wellFormed c" and "merge chunk (vocabulary c) = Inr toks"
  shows "concat (map snd toks) = chunk"
    and "\<And>tok. tok \<in> set toks \<Longrightarrow> decodeId c (fst tok) = Inr (snd tok)"
    and "int (length toks) = int (length (mergeParts (vocabulary c) (map (\<lambda>b. [b]) chunk)))"
proof -
  let ?parts = "mergeParts (vocabulary c) (map (\<lambda>b. [b]) chunk)"
  from assms merge_result [OF assms(1), of chunk]
  have toks: "toks = map (\<lambda>p. (the (rankOf (vocabulary c) p), p)) ?parts"
    by simp
  have "concat (map snd toks) = concat ?parts"
    by (simp add: toks comp_def)
  also have "\<dots> = concat (map (\<lambda>b. [b]) chunk)"
    by (rule concat_mergeParts)
  also have "\<dots> = chunk"
    by (induction chunk) simp_all
  finally show "concat (map snd toks) = chunk" .
  show "int (length toks) = int (length ?parts)"
    by (simp add: toks)
  fix tok assume "tok \<in> set toks"
  then obtain p where p: "p \<in> set ?parts" "tok = (the (rankOf (vocabulary c) p), p)"
    by (auto simp: toks)
  from ranked_mergeParts [OF single_bytes_ranked [OF assms(1)]] p(1)
  obtain r where "rankOf (vocabulary c) p = Some r"
    by blast
  with decodeId_rank [OF assms(1) this] p(2) show "decodeId c (fst tok) = Inr (snd tok)"
    by simp
qed

subsection \<open>A list of steps that keep the text\<close>

lemma collect_tokens:
  assumes "collect f xs = Inr toks"
    and "\<And>x ys. x \<in> set xs \<Longrightarrow> f x = Inr ys \<Longrightarrow>
           concat (map snd ys) = source x \<and> (\<forall>tok \<in> set ys. decodeId c (fst tok) = Inr (snd tok))"
  shows "concat (map snd toks) = concat (map source xs) \<and>
         (\<forall>tok \<in> set toks. decodeId c (fst tok) = Inr (snd tok))"
  using assms
proof (induction xs arbitrary: toks)
  case Nil
  then show ?case by simp
next
  case (Cons x xs)
  from Cons.prems(1) obtain ys zs where ys: "f x = Inr ys" and zs: "collect f xs = Inr zs"
    and toks: "toks = ys @ zs"
    by (auto split: sum.splits)
  from Cons.prems(2) [of x ys] ys
  have 1: "concat (map snd ys) = source x" "\<forall>tok \<in> set ys. decodeId c (fst tok) = Inr (snd tok)"
    by simp_all
  have "concat (map snd zs) = concat (map source xs) \<and>
      (\<forall>tok \<in> set zs. decodeId c (fst tok) = Inr (snd tok))"
  proof (rule Cons.IH [OF zs])
    fix x' ys' assume "x' \<in> set xs" "f x' = Inr ys'"
    with Cons.prems(2) [of x' ys']
    show "concat (map snd ys') = source x' \<and>
        (\<forall>tok \<in> set ys'. decodeId c (fst tok) = Inr (snd tok))"
      by simp
  qed
  then have 2: "concat (map snd zs) = concat (map source xs)"
    "\<forall>tok \<in> set zs. decodeId c (fst tok) = Inr (snd tok)"
    by simp_all
  from 1 2 show ?case
    by (auto simp: toks)
qed

lemma encodeSegment_tokens:
  assumes "wellFormed c" and "encodeSegment findMatch c seg = Inr toks"
    and "\<And>literal tid. seg = Special literal tid \<Longrightarrow> (literal, tid) \<in> set (specialTokens c)"
  shows "concat (map snd toks) = segmentText seg \<and>
         (\<forall>tok \<in> set toks. decodeId c (fst tok) = Inr (snd tok))"
proof (cases seg)
  case (Special literal tid)
  with assms(2) have "toks = [(tid, literal)]"
    by (simp add: encodeSegment_def)
  with Special decodeId_special [OF assms(1) assms(3) [OF Special]] show ?thesis
    by (simp add: segmentText_def)
next
  case (Plain plain)
  with assms(2) obtain chunks where chunks: "split (findMatch (splitRegexp c)) plain = Inr chunks"
    and toks: "collect (\<lambda>chunk. merge chunk (vocabulary c)) chunks = Inr toks"
    by (auto simp: encodeSegment_def split: sum.splits)
  from collect_tokens [of "\<lambda>chunk. merge chunk (vocabulary c)" chunks toks "\<lambda>chunk. chunk" c, OF toks]
    merge_tokens(1,2) [OF assms(1)]
  have "concat (map snd toks) = concat (map (\<lambda>chunk. chunk) chunks) \<and>
      (\<forall>tok \<in> set toks. decodeId c (fst tok) = Inr (snd tok))"
    by blast
  with split_concat [OF chunks] Plain show ?thesis
    by (simp add: segmentText_def)
qed

lemma encodeSegment_total:
  assumes "wellFormed c" and "alwaysMatches (findMatch (splitRegexp c))"
  shows "\<exists>toks. encodeSegment findMatch c seg = Inr toks"
proof (cases seg)
  case (Special literal tid)
  then show ?thesis by (simp add: encodeSegment_def)
next
  case (Plain plain)
  from split_total [OF assms(2), of plain] obtain chunks
    where chunks: "split (findMatch (splitRegexp c)) plain = Inr chunks"
    by blast
  have "collect (\<lambda>chunk. merge chunk (vocabulary c)) chunks =
      Inr (concat (map (\<lambda>chunk. map (\<lambda>p. (the (rankOf (vocabulary c) p), p))
          (mergeParts (vocabulary c) (map (\<lambda>b. [b]) chunk))) chunks))"
    by (rule collect_all_Inr) (rule merge_result [OF assms(1)])
  then have "\<exists>toks. collect (\<lambda>chunk. merge chunk (vocabulary c)) chunks = Inr toks"
    by blast
  with Plain chunks show ?thesis
    by (auto simp: encodeSegment_def)
qed

lemma collect_total:
  "(\<And>x. x \<in> set xs \<Longrightarrow> \<exists>ys. f x = Inr ys) \<Longrightarrow> \<exists>zs. collect f xs = Inr zs"
proof (induction xs)
  case Nil
  show ?case by simp
next
  case (Cons x xs)
  from Cons.prems [of x] obtain ys where "f x = Inr ys" by auto
  moreover from Cons.IH Cons.prems obtain zs where "collect f xs = Inr zs" by auto
  ultimately show ?case by simp
qed

subsection \<open>Counting\<close>

lemma sumCounts_Inr_collect:
  "sumCounts (\<lambda>chunk. Inr (int (length (g chunk)))) chunks
     = Inr (int (length (concat (map g chunks))))"
  by (induction chunks) simp_all

lemma countSegment_encodeSegment:
  assumes "wellFormed c"
  shows "countSegment findMatch c seg
    = map_sum (\<lambda>e. e) (\<lambda>ys. int (length ys)) (encodeSegment findMatch c seg)"
proof (cases seg)
  case (Special literal tid)
  then show ?thesis by (simp add: countSegment_def encodeSegment_def)
next
  case (Plain plain)
  show ?thesis
  proof (cases "split (findMatch (splitRegexp c)) plain")
    case (Inl err)
    with Plain show ?thesis by (simp add: countSegment_def encodeSegment_def)
  next
    case (Inr chunks)
    have "sumCounts (\<lambda>chunk. Inr (int (length (mergeParts (vocabulary c) (map (\<lambda>b. [b]) chunk))))) chunks
        = map_sum (\<lambda>e. e) (\<lambda>ys. int (length ys)) (collect (\<lambda>chunk. merge chunk (vocabulary c)) chunks)"
      by (rule sumCounts_collect) (simp add: merge_result [OF assms])
    with Plain Inr show ?thesis by (simp add: countSegment_def encodeSegment_def)
  qed
qed

subsection \<open>Examples and the configurations of the constructors\<close>

lemma tie_break_leftmost:
  "mergeParts [(''ab'', 5), (''bc'', 5)] [''a'', ''b'', ''c''] = [''ab'', ''c'']"
  by code_simp

lemma lowest_rank_first:
  "mergeParts [(''ab'', 5), (''bc'', 4)] [''a'', ''b'', ''c''] = [''a'', ''bc'']"
  by code_simp

lemma exampleVocab_keys:
  "map fst exampleVocab = map (\<lambda>n. [char_of n]) [0..<256] @ [''ab'', ''abc'']"
  by (simp add: exampleVocab_def comp_def del: upt_Suc)

lemma exampleVocab_ranks: "map snd exampleVocab = [0..<258]"
proof -
  have "map snd exampleVocab = [0..<256] @ [256, 257]"
    by (simp add: exampleVocab_def comp_def del: upt_Suc)
  also have "\<dots> = [0..<256] @ [256..<258]"
    by (simp add: upt_rec [of 256] upt_rec [of 257] del: upt_Suc)
  also have "\<dots> = [0..<258]"
    using upt_add_eq_append [of 0 256 2] by simp
  finally show ?thesis .
qed

lemma exampleVocab_wellFormed:
  "distinct (map fst exampleVocab)"
  "distinct (map snd exampleVocab)"
  "\<forall>r \<in> snd ` set exampleVocab. r < length exampleVocab"
  "\<forall>b. [b] \<in> fst ` set exampleVocab"
proof -
  have "inj_on (\<lambda>n. [char_of n :: char]) {0::nat..<256}"
    using inj_on_char_of_nat by (auto simp: inj_on_def)
  then have "distinct (map (\<lambda>n. [char_of n :: char]) [0::nat..<256])"
    by (simp add: distinct_map del: upt_Suc)
  then show "distinct (map fst exampleVocab)"
    by (auto simp add: exampleVocab_keys simp del: upt_Suc)
  show "distinct (map snd exampleVocab)"
    by (simp only: exampleVocab_ranks distinct_upt)
  have len: "length exampleVocab = 258"
    using arg_cong [OF exampleVocab_ranks, of length] by simp
  have "set (map snd exampleVocab) = {0..<258}"
    by (simp only: exampleVocab_ranks set_upt)
  with len show "\<forall>r \<in> snd ` set exampleVocab. r < length exampleVocab"
    by auto
  show "\<forall>b. [b] \<in> fst ` set exampleVocab"
  proof
    fix b :: char
    have "[char_of (of_char b :: nat)] \<in> set (map (\<lambda>n. [char_of n]) [0..<256])"
      unfolding set_map set_upt by (rule imageI) simp
    then have "[b] \<in> set (map fst exampleVocab)"
      by (simp add: exampleVocab_keys del: upt_Suc)
    then show "[b] \<in> fst ` set exampleVocab"
      by simp
  qed
qed

lemma exampleMatch_alwaysMatches: "alwaysMatches (exampleMatch re)"
proof -
  have "length (takeWhile P t) \<le> length t" for P and t :: string
    by (rule length_takeWhile_le)
  then show ?thesis
    by (auto simp: alwaysMatches_def exampleMatch_def max_def Suc_le_eq)
qed

lemma tinyCodec_run:
  "codec_Encode exampleMatch tinyCodec ''abc ab<|e|>c''
     = Inr ([5, 3, 4, 6, 2], [''abc'', '' '', ''ab'', ''<|e|>'', ''c''])"
  "codec_Decode tinyCodec [5, 3, 4, 6, 2] = Inr ''abc ab<|e|>c''"
  "codec_Count exampleMatch tinyCodec ''abc ab<|e|>c'' = Inr 5"
  "codec_Decode tinyCodec [5, 7] = Inl (ErrOther ''invalid token'')"
  by code_simp+

lemma llama3_wellFormed:
  assumes "distinct (map fst llamaVocab)" and "distinct (map snd llamaVocab)"
    and "\<forall>r \<in> snd ` set llamaVocab. r < length llamaVocab"
    and "\<forall>b. [b] \<in> fst ` set llamaVocab"
  shows "wellFormed (NewLLama3Base llamaVocab llamaRegexp)"
proof -
  let ?c = "NewLLama3Base llamaVocab llamaRegexp"
  have v: "vocabulary ?c = llamaVocab"
    by (simp add: NewLLama3Base_def Let_def)
  have "distinct (map snd (specialTokens ?c))"
    by (simp only: llama3_special_ids distinct_upt)
  moreover have "set (map snd (specialTokens ?c)) = {length llamaVocab ..< length llamaVocab + 256}"
    by (simp only: llama3_special_ids set_upt)
  then have "\<forall>i \<in> snd ` set (specialTokens ?c). length llamaVocab \<le> i"
    by auto
  moreover note llama3_special_names_distinct [of llamaVocab llamaRegexp] assms
  ultimately show ?thesis
    unfolding wellFormed_def v by blast
qed

lemma gpt2_wellFormed:
  assumes "distinct (map fst gpt2BaseVocab)" and "distinct (map snd gpt2BaseVocab)"
    and "\<forall>r \<in> snd ` set gpt2BaseVocab. r < length gpt2BaseVocab"
    and "\<forall>b. [b] \<in> fst ` set gpt2BaseVocab"
    and "length gpt2BaseVocab \<le> 50256"
  shows "wellFormed (NewGPT2Base gpt2BaseVocab gpt2Regexp)"
  using assms by (simp add: wellFormed_def NewGPT2Base_def)

section \<open>The claims about the codec engine\<close>

text \<open>
  Claim C1. For a codec whose tables satisfy the invariants of the data model, the ids that
  \<open>Encode\<close> produces for a text decode to that text exactly (and the tokens are the pieces
  of the text, one for each id); and when the pattern matches at least one character of
  any input that is not empty, \<open>Encode\<close> does produce ids for every text. The codecs of
  \<open>NewLLama3Base\<close> and \<open>NewGPT2Base\<close> satisfy the invariants when their vocabulary does
  (\<open>llama3_wellFormed\<close>, \<open>gpt2_wellFormed\<close>).
\<close>

theorem Encode_Decode_roundtrip:
  assumes "wellFormed c"
  shows "(codec_Encode findMatch c t = Inr (ids, tokens) \<longrightarrow>
            codec_Decode c ids = Inr t \<and> concat tokens = t \<and> length tokens = length ids) \<and>
         (alwaysMatches (findMatch (splitRegexp c)) \<longrightarrow>
            (\<exists>ids tokens. codec_Encode findMatch c t = Inr (ids, tokens)))"
proof (intro conjI impI)
  let ?segs = "recognize (specialTokens c) [] t"
  {
    assume "codec_Encode findMatch c t = Inr (ids, tokens)"
    then obtain toks where toks: "collect (encodeSegment findMatch c) ?segs = Inr toks"
      and ids: "ids = map fst toks" and tokens: "tokens = map snd toks"
      by (auto simp: codec_Encode_def split: sum.splits)
    have "concat (map snd ys) = segmentText seg \<and>
        (\<forall>tok \<in> set ys. decodeId c (fst tok) = Inr (snd tok))"
      if "seg \<in> set ?segs" "encodeSegment findMatch c seg = Inr ys" for seg ys
      using assms that(2)
    proof (rule encodeSegment_tokens)
      fix literal tid assume "seg = Special literal tid"
      with that(1) show "(literal, tid) \<in> set (specialTokens c)"
        by (auto dest: recognize_Special)
    qed
    from collect_tokens [of "encodeSegment findMatch c" ?segs toks segmentText c, OF toks this]
    have "concat (map snd toks) = concat (map segmentText ?segs)"
      and d: "\<forall>tok \<in> set toks. decodeId c (fst tok) = Inr (snd tok)"
      by blast+
    then have whole: "concat (map snd toks) = t"
      by (simp add: recognize_text)
    from decode_tokens [of toks c] d have "codec_Decode c (map fst toks) = Inr (concat (map snd toks))"
      by blast
    with whole ids tokens
    show "codec_Decode c ids = Inr t" "concat tokens = t" "length tokens = length ids"
      by simp_all
  }
  {
    assume m: "alwaysMatches (findMatch (splitRegexp c))"
    have "\<exists>toks. collect (encodeSegment findMatch c) ?segs = Inr toks"
      by (rule collect_total) (rule encodeSegment_total [of c findMatch, OF assms m])
    then obtain toks where "collect (encodeSegment findMatch c) ?segs = Inr toks"
      by blast
    then show "\<exists>ids tokens. codec_Encode findMatch c t = Inr (ids, tokens)"
      by (simp add: codec_Encode_def)
  }
qed

theorem Encode_Decode_roundtrip_witness:
  "wellFormed (NewLLama3Base exampleVocab ()) \<and>
   alwaysMatches (exampleMatch (splitRegexp (NewLLama3Base exampleVocab ()))) \<and>
   (\<exists>ids tokens.
      codec_Encode exampleMatch (NewLLama3Base exampleVocab ()) ''abc ab<|end_of_text|>'' = Inr (ids, tokens) \<and>
      codec_Decode (NewLLama3Base exampleVocab ()) ids = Inr ''abc ab<|end_of_text|>'')"
proof -
  have w: "wellFormed (NewLLama3Base exampleVocab ())"
    by (rule llama3_wellFormed) (rule exampleVocab_wellFormed)+
  have m: "alwaysMatches (exampleMatch (splitRegexp (NewLLama3Base exampleVocab ())))"
    by (rule exampleMatch_alwaysMatches)
  from Encode_Decode_roundtrip [OF w, of exampleMatch "''abc ab<|end_of_text|>''"] m
  obtain ids tokens where
    e: "codec_Encode exampleMatch (NewLLama3Base exampleVocab ()) ''abc ab<|end_of_text|>'' = Inr (ids, tokens)"
    by blast
  with Encode_Decode_roundtrip [OF w, of exampleMatch "''abc ab<|end_of_text|>''" ids tokens]
  have "codec_Decode (NewLLama3Base exampleVocab ()) ids = Inr ''abc ab<|end_of_text|>''"
    by blast
  with w m e show ?thesis by blast
qed

text \<open>
  Claim C2. For a codec whose tables satisfy the invariants of the data model, \<open>Count\<close>
  returns the number of ids that \<open>Encode\<close> returns for the same text, and the error of
  \<open>Encode\<close> when \<open>Encode\<close> fails.
\<close>

theorem Count_is_length_of_Encode:
  assumes "wellFormed c"
  shows "codec_Count findMatch c t =
    (case codec_Encode findMatch c t of
       Inl err \<Rightarrow> Inl err
     | Inr (ids, tokens) \<Rightarrow> Inr (int (length ids)))"
proof -
  have "codec_Count findMatch c t
      = map_sum (\<lambda>e. e) (\<lambda>ys. int (length ys))
          (collect (encodeSegment findMatch c) (recognize (specialTokens c) [] t))"
    unfolding codec_Count_def
    by (rule sumCounts_collect) (simp add: countSegment_encodeSegment [OF assms])
  then show ?thesis
    by (simp add: codec_Encode_def split: sum.splits)
qed

theorem Count_is_length_of_Encode_witness:
  "wellFormed (NewLLama3Base exampleVocab ()) \<and>
   codec_Count exampleMatch (NewLLama3Base exampleVocab ()) ''abc ab<|end_of_text|>'' =
    (case codec_Encode exampleMatch (NewLLama3Base exampleVocab ()) ''abc ab<|end_of_text|>'' of
       Inl err \<Rightarrow> Inl err
     | Inr (ids, tokens) \<Rightarrow> Inr (int (length ids)))"
proof -
  have w: "wellFormed (NewLLama3Base exampleVocab ())"
    by (rule llama3_wellFormed) (rule exampleVocab_wellFormed)+
  from w Count_is_length_of_Encode [OF w, of exampleMatch "''abc ab<|end_of_text|>''"]
  show ?thesis by simp
qed

end
